theory Spec2Isabelle
  imports Complex_Main "HOL-Library.AList"
begin

section \<open>CodeMate: function detection, body extraction and complexity highlighting\<close>

text \<open>
  A shallow embedding of the core of \<^verbatim>\<open>src/extension.js\<close>: the maintainability
  calculator, the line-based function detector with its four regular expressions, the
  brace-counting body extractor, the complexity mapper, the highlight projector and the
  selection handler.

  Conventions of the model.
  \<^item> A document is the list of its lines; \<^verbatim>\<open>lineCount\<close> is its length and
    \<^verbatim>\<open>lineAt(i)\<close> throws outside \<open>0 \<le> i < lineCount\<close>.
  \<^item> A JavaScript string is a \<open>string\<close>; characters are restricted to the code units
    below 256, which contain every character the patterns name.
  \<^item> JavaScript numbers that hold line numbers, columns, scores and clock readings are
    \<open>int\<close>; the Halstead effort and the maintainability index are \<open>real\<close>, so the
    arithmetic of the calculator is the exact one, not the rounded arithmetic of IEEE doubles.
  \<^item> A thrown exception is the \<open>Inl\<close> branch of a sum; \<^verbatim>\<open>null\<close> is \<open>None\<close>.
  \<^item> Calls into the editor that only produce output (messages, console lines, dispatched
    asynchronous commands) are collected in a list of effects, in program order.
\<close>

subsection \<open>Maintainability calculator\<close>

text \<open>
  \<^verbatim>\<open>Number.prototype.toFixed(2)\<close>: the decimal with two fraction digits nearest to the
  argument, the larger one on a tie. The source returns its string; the model returns the
  number that string denotes.
\<close>

definition toFixed2 :: "real \<Rightarrow> real" where
  "toFixed2 x = of_int \<lfloor>x * 100 + 1 / 2\<rfloor> / 100"

definition epsilon :: real where
  "epsilon = 1 / 100000"

text \<open>\<^verbatim>\<open>calculateMaintainability\<close> of \<^verbatim>\<open>src/extension.js\<close> (and its copy at the end of
  \<^verbatim>\<open>src/src/modules/utils.js\<close>).\<close>

definition calculateMaintainability :: "real \<Rightarrow> real \<Rightarrow> real \<Rightarrow> real" where
  "calculateMaintainability halsteadEffort cyclomatic sloc =
     (let effortLn = ln (halsteadEffort + epsilon);
          slocLn = ln (sloc + epsilon);
          MI = max 0 ((171 - 5.2 * effortLn - 0.23 * cyclomatic - 16.2 * slocLn) * 100 / 171)
      in toFixed2 MI)"

text \<open>The first of the two copies in \<^verbatim>\<open>src/src/modules/utils.js\<close> (line 232) adds 1
  instead of \<open>epsilon\<close>.\<close>

definition calculateMaintainability_plus1 :: "real \<Rightarrow> real \<Rightarrow> real \<Rightarrow> real" where
  "calculateMaintainability_plus1 effort cyclomatic sloc =
     (let lnEffort = ln (effort + 1);
          lnSloc = ln (sloc + 1)
      in toFixed2 (max 0 ((171 - 5.2 * lnEffort - 0.23 * cyclomatic - 16.2 * lnSloc) * 100 / 171)))"

subsection \<open>Strings\<close>

text \<open>The characters that \<^verbatim>\<open>\s\<close> matches and \<^verbatim>\<open>trim()\<close> strips (white space and line
  terminators), among the code units below 256.\<close>

definition isWhiteSpace :: "char \<Rightarrow> bool" where
  "isWhiteSpace c \<longleftrightarrow>
     c \<in> set [CHR 0x09, CHR 0x0A, CHR 0x0B, CHR 0x0C, CHR 0x0D, CHR 0x20, CHR 0xA0]"

text \<open>The characters that \<^verbatim>\<open>\w\<close> matches: \<^verbatim>\<open>[A-Za-z0-9_]\<close>.\<close>

definition isWordChar :: "char \<Rightarrow> bool" where
  "isWordChar c \<longleftrightarrow>
     (let n = (of_char c :: nat)
      in (48 \<le> n \<and> n \<le> 57) \<or> (65 \<le> n \<and> n \<le> 90) \<or> n = 95 \<or> (97 \<le> n \<and> n \<le> 122))"

definition trim :: "string \<Rightarrow> string" where
  "trim s = rev (dropWhile isWhiteSpace (rev (dropWhile isWhiteSpace s)))"

definition startsWith :: "string \<Rightarrow> string \<Rightarrow> bool" where
  "startsWith s p \<longleftrightarrow> take (length p) s = p"

definition endsWith :: "string \<Rightarrow> string \<Rightarrow> bool" where
  "endsWith s p \<longleftrightarrow> length p \<le> length s \<and> drop (length s - length p) s = p"

text \<open>\<^verbatim>\<open>String.prototype.indexOf\<close>: the first offset at which the pattern starts, or
  \<open>-1\<close>.\<close>

fun indexOf :: "string \<Rightarrow> string \<Rightarrow> int" where
  "indexOf [] p = (if p = [] then 0 else -1)"
| "indexOf (c # cs) p =
     (if startsWith (c # cs) p then 0
      else (let k = indexOf cs p in if k = -1 then -1 else k + 1))"

definition includes_str :: "string \<Rightarrow> string \<Rightarrow> bool" where
  "includes_str s p \<longleftrightarrow> indexOf s p \<noteq> -1"

text \<open>\<^verbatim>\<open>Array.prototype.join('\n')\<close>.\<close>

fun joinLines :: "string list \<Rightarrow> string" where
  "joinLines [] = []"
| "joinLines [l] = l"
| "joinLines (l # ls) = l @ [CHR 0x0A] @ joinLines ls"

subsection \<open>Documents, positions and ranges of the editor\<close>

type_synonym document = "string list"

datatype error = IllegalLine | IllegalArgument

text \<open>\<^verbatim>\<open>TextDocument.lineAt\<close> throws for a line number outside the document.\<close>

definition lineAt :: "document \<Rightarrow> int \<Rightarrow> error + string" where
  "lineAt d i = (if 0 \<le> i \<and> i < int (length d) then Inr (d ! nat i) else Inl IllegalLine)"

record Position =
  line :: int
  character :: int

record Range =
  start_line :: int
  start_character :: int
  end_line :: int
  end_character :: int

text \<open>\<^verbatim>\<open>new vscode.Range(startLine, startCharacter, endLine, endCharacter)\<close>: the editor
  rejects negative coordinates and orders the two end points.\<close>

definition newRange :: "int \<Rightarrow> int \<Rightarrow> int \<Rightarrow> int \<Rightarrow> error + Range" where
  "newRange sl sc el ec =
     (if sl < 0 \<or> sc < 0 \<or> el < 0 \<or> ec < 0 then Inl IllegalArgument
      else if sl < el \<or> (sl = el \<and> sc < ec)
        then Inr \<lparr>start_line = sl, start_character = sc, end_line = el, end_character = ec\<rparr>
        else Inr \<lparr>start_line = el, start_character = ec, end_line = sl, end_character = sc\<rparr>)"

subsection \<open>The regular expressions of the detector\<close>

text \<open>
  The four patterns use literals, the classes \<^verbatim>\<open>\s\<close>, \<^verbatim>\<open>\w\<close> and \<^verbatim>\<open>[^)]\<close> under
  \<^verbatim>\<open>*\<close> and \<^verbatim>\<open>+\<close>, optional non-capturing groups, sequencing and one capturing group.
  \<open>run r (cap, s)\<close> lists every way \<open>r\<close> can match a prefix of \<open>s\<close>, as the capture and
  the remaining input, in the order in which a backtracking matcher tries them: greedy
  repetitions longest first, an optional group first taken and then skipped.
\<close>

datatype cls = Word | Space | NotRParen

fun inCls :: "cls \<Rightarrow> char \<Rightarrow> bool" where
  "inCls Word c = isWordChar c"
| "inCls Space c = isWhiteSpace c"
| "inCls NotRParen c = (c \<noteq> CHR '')'')"

datatype rx = Lit string | Star cls | Plus cls | Opt rx | Seq rx rx | Cap rx

type_synonym mstate = "string option \<times> string"

fun run :: "rx \<Rightarrow> mstate \<Rightarrow> mstate list" where
  "run (Lit l) (cap, s) = (if startsWith s l then [(cap, drop (length l) s)] else [])"
| "run (Star k) (cap, s) =
     map (\<lambda>n. (cap, drop n s)) (rev [0 ..< Suc (length (takeWhile (inCls k) s))])"
| "run (Plus k) (cap, s) =
     map (\<lambda>n. (cap, drop n s)) (rev [1 ..< Suc (length (takeWhile (inCls k) s))])"
| "run (Opt r) st = run r st @ [st]"
| "run (Seq a b) st = concat (map (run b) (run a st))"
| "run (Cap r) (cap, s) =
     map (\<lambda>(c', s'). (Some (take (length s - length s') s), s')) (run r (cap, s))"

fun seqs :: "rx list \<Rightarrow> rx" where
  "seqs [] = Lit []"
| "seqs [r] = r"
| "seqs (r # rs) = Seq r (seqs rs)"

record RegExpMatch =
  index :: int
  group1 :: "string option"

text \<open>\<^verbatim>\<open>text.match(pattern)\<close> for a pattern that starts with \<^verbatim>\<open>^\<close> and has no flags: the
  only candidate offset is 0, and the result is the first way the pattern matches there.\<close>

definition matchAnchored :: "string \<Rightarrow> rx \<Rightarrow> RegExpMatch option" where
  "matchAnchored text pattern =
     (case run pattern (None, text) of
        [] \<Rightarrow> None
      | (cap, rest) # others \<Rightarrow> Some \<lparr>index = 0, group1 = cap\<rparr>)"

definition optExport :: rx where
  "optExport = Opt (Seq (Lit ''export'') (Plus Space))"

definition optAsync :: rx where
  "optAsync = Opt (Seq (Lit ''async'') (Plus Space))"

text \<open>\<^verbatim>\<open>/^(?:export\s+)?(?:async\s+)?function\s+(\w+)\s*\(/\<close>\<close>

definition pattern1 :: rx where
  "pattern1 = seqs [optExport, optAsync, Lit ''function'', Plus Space, Cap (Plus Word),
     Star Space, Lit ''('']"

text \<open>\<^verbatim>\<open>/^(?:export\s+)?const\s+(\w+)\s*=\s*(?:async\s*)?\([^)]*\)\s*=>/\<close>\<close>

definition pattern2 :: rx where
  "pattern2 = seqs [optExport, Lit ''const'', Plus Space, Cap (Plus Word), Star Space,
     Lit ''='', Star Space, Opt (Seq (Lit ''async'') (Star Space)), Lit ''('',
     Star NotRParen, Lit '')'', Star Space, Lit ''=>'']"

text \<open>\<^verbatim>\<open>/^(?:export\s+)?const\s+(\w+)\s*=\s*function\s*\(/\<close>\<close>

definition pattern3 :: rx where
  "pattern3 = seqs [optExport, Lit ''const'', Plus Space, Cap (Plus Word), Star Space,
     Lit ''='', Star Space, Lit ''function'', Star Space, Lit ''('']"

text \<open>\<^verbatim>\<open>/^(?:export\s+)?(?:async\s+)?(\w+)\s*\([^)]*\)\s*{/\<close>\<close>

definition pattern4 :: rx where
  "pattern4 = seqs [optExport, optAsync, Cap (Plus Word), Star Space, Lit ''('',
     Star NotRParen, Lit '')'', Star Space, Lit ''{'']"

definition patterns :: "rx list" where
  "patterns = [pattern1, pattern2, pattern3, pattern4]"

subsection \<open>Function boundary detector\<close>

text \<open>
  The loop of \<^verbatim>\<open>findFunctionDefinition\<close> over the patterns. The result is
  \<^verbatim>\<open>match[1]\<close>; group 1 takes part in every match of the four patterns (lemma
  \<open>patterns_capture\<close> below), so the branch for an undefined group is never taken.
\<close>

fun firstAccepted :: "rx list \<Rightarrow> string \<Rightarrow> string option" where
  "firstAccepted [] text = None"
| "firstAccepted (pattern # rest) text =
     (case matchAnchored text pattern of
        None \<Rightarrow> firstAccepted rest text
      | Some m \<Rightarrow>
          (let commentIndex = indexOf text ''//''
           in if commentIndex = -1 \<or> index m < commentIndex
              then Some (case group1 m of Some n \<Rightarrow> n | None \<Rightarrow> [])
              else firstAccepted rest text))"

definition findFunctionDefinition :: "string \<Rightarrow> string option" where
  "findFunctionDefinition text = firstAccepted patterns text"

record TextEdit =
  insertLine :: int
  insertCharacter :: int
  newText :: string

definition placeholder :: string where
  "placeholder = replicate 50 (CHR '' '')"

type_synonym ranges = "(string \<times> Range) list"

text \<open>
  A \<^verbatim>\<open>Map\<close> from names to ranges is an association list in insertion order;
  \<^verbatim>\<open>Map.prototype.set\<close> is \<open>AList.update\<close> (an existing key keeps its place), and
  \<^verbatim>\<open>size\<close> is the length.
\<close>

text \<open>One iteration of the loop of \<^verbatim>\<open>detectFunctions\<close>, at line \<open>i\<close>.\<close>

definition detectLine :: "document \<Rightarrow> nat \<Rightarrow> ranges \<times> TextEdit list \<Rightarrow> error + ranges \<times> TextEdit list" where
  "detectLine document i acc =
     (case lineAt document (int i) of
        Inl e \<Rightarrow> Inl e
      | Inr text \<Rightarrow>
          (let trimmedLine = trim text
           in if trimmedLine = [] \<or> startsWith trimmedLine ''//'' \<or> startsWith trimmedLine ''/*''
              then Inr acc
              else (case findFunctionDefinition text of
                      None \<Rightarrow> Inr acc
                    | Some name \<Rightarrow>
                        (case newRange (int i) 0 (int i) (int (length (trim text))) of
                           Inl e \<Rightarrow> Inl e
                         | Inr rng \<Rightarrow>
                             Inr (AList.update name rng (fst acc),
                                  if \<not> endsWith text placeholder
                                  then snd acc @ [\<lparr>insertLine = int i,
                                         insertCharacter = int (length text),
                                         newText = placeholder\<rparr>]
                                  else snd acc)))))"

function detectLoop :: "document \<Rightarrow> nat \<Rightarrow> ranges \<times> TextEdit list \<Rightarrow> error + ranges \<times> TextEdit list" where
  "detectLoop document i acc =
     (if i < length document
      then (case detectLine document i acc of
              Inl e \<Rightarrow> Inl e
            | Inr acc' \<Rightarrow> detectLoop document (Suc i) acc')
      else Inr acc)"
  by pat_completeness auto
termination
  by (relation "measure (\<lambda>(document, i, acc). length document - i)") auto

declare detectLoop.simps [simp del]

subsection \<open>Function body extractor\<close>

text \<open>The inner loop of \<^verbatim>\<open>extractFunctionCode\<close> over the characters of one line; the
  state is \<open>(foundOpening, braceCount)\<close>.\<close>

fun braceStep :: "char \<Rightarrow> bool \<times> int \<Rightarrow> bool \<times> int" where
  "braceStep c (foundOpening, braceCount) =
     (if c = CHR ''{'' then (True, braceCount + 1)
      else if c = CHR ''}'' then (foundOpening, braceCount - 1)
      else (foundOpening, braceCount))"

function extractLoop :: "document \<Rightarrow> nat \<Rightarrow> bool \<times> int \<Rightarrow> string list \<Rightarrow> error + string option" where
  "extractLoop document lineNo st code =
     (if lineNo < length document
      then (case lineAt document (int lineNo) of
              Inl e \<Rightarrow> Inl e
            | Inr text \<Rightarrow>
                (let code' = code @ [text];
                     st' = fold braceStep text st
                 in if fst st' \<and> snd st' = 0 then Inr (Some (joinLines code'))
                    else extractLoop document (Suc lineNo) st' code'))
      else Inr None)"
  by pat_completeness auto
termination
  by (relation "measure (\<lambda>(document, lineNo, st, code). length document - lineNo)") auto

declare extractLoop.simps [simp del]

text \<open>\<^verbatim>\<open>extractFunctionCode(startLine)\<close>, with the document of the active editor (if any)
  as a parameter. Start lines are line numbers, hence natural numbers.\<close>

definition extractFunctionCode :: "document option \<Rightarrow> nat \<Rightarrow> error + string option" where
  "extractFunctionCode activeDocument startLine =
     (case activeDocument of
        None \<Rightarrow> Inr None
      | Some document \<Rightarrow> extractLoop document startLine (False, 0) [])"

subsection \<open>Session state, decorations and effects\<close>

datatype hover =
    HighComplexity int string
  | OptimalComplexity int string
  | RefactorHint string
  | ClickToGenerate string

datatype render = HighLabel | OptimalLabel | GutterIcon | TestLabel

record Decoration =
  deco_range :: Range
  hoverMessage :: hover
  renderOptions :: render

text \<open>A text editor with its document and the decoration lists last set for the three
  decoration types of the extension.\<close>

record Editor =
  editorId :: nat
  document :: document
  languageId :: string
  fileName :: string
  testDecorations :: "Decoration list"
  complexityDecorations :: "Decoration list"
  refactorDecorations :: "Decoration list"

record State =
  activeEditor :: "Editor option"
  functionRanges :: ranges
  complexityRanges :: ranges
  isEditingFunction :: bool
  lastClickTime :: int
  lastTypingTime :: int

datatype effect =
    ShowErrorMessage string
  | ConsoleError
  | ConsoleWarn
  | ApplyEdit "TextEdit list"
  | ShowBatchButton
  | HideBatchButton
  | BatchTestGeneration
  | TestGeneration string Range "string option"

definition andThen :: "error + 'a \<Rightarrow> ('a \<Rightarrow> error + 'b) \<Rightarrow> error + 'b" where
  "andThen m f = (case m of Inl e \<Rightarrow> Inl e | Inr x \<Rightarrow> f x)"

definition isValidSourceFile :: "Editor \<Rightarrow> bool" where
  "isValidSourceFile ed =
     (let isJavaScript = (languageId ed = ''javascript'' \<or> languageId ed = ''typescript'');
          isTestFile = (includes_str (fileName ed) ''.test.'' \<or> includes_str (fileName ed) ''.spec.'')
      in isJavaScript \<and> \<not> isTestFile)"

text \<open>\<^verbatim>\<open>detectFunctions(document)\<close>: clears the map, scans every line, and applies the
  collected insertions in one workspace edit.\<close>

definition detectFunctions :: "State \<Rightarrow> document \<Rightarrow> error + State \<times> effect list" where
  "detectFunctions st d =
     andThen (detectLoop d 0 ([], []))
       (\<lambda>(found, edits).
          Inr (st\<lparr>functionRanges := found\<rparr>, if edits \<noteq> [] then [ApplyEdit edits] else []))"

fun createDecorations :: "ranges \<Rightarrow> error + Decoration list" where
  "createDecorations [] = Inr []"
| "createDecorations ((n, r) # rest) =
     andThen (newRange (end_line r) (end_character r + 4) (end_line r) (end_character r + 5))
       (\<lambda>rng. andThen (createDecorations rest)
          (\<lambda>ds. Inr (\<lparr>deco_range = rng, hoverMessage = ClickToGenerate n,
                        renderOptions = TestLabel\<rparr> # ds)))"

subsection \<open>Complexity mapper\<close>

text \<open>One entry of the \<^verbatim>\<open>methods\<close> list of the metrics engine, and the outcomes of
  \<^verbatim>\<open>escomplex.analyzeModule\<close>: it throws, returns nothing, returns a report without
  \<^verbatim>\<open>methods\<close>, or returns a report with them.\<close>

record EngineMethod =
  method_name :: string
  cyclomatic :: int
  halstead_effort :: real
  sloc_logical :: int
  lineStart :: "int option"
  lineEnd :: "int option"
  method_errors :: "string list"

datatype engine_result = EngineThrows | NoAnalysis | NoMethods | Methods "EngineMethod list"

record Metric =
  metric_name :: string
  complexity :: int
  maintainability :: real
  lines_start :: "int option"
  lines_end :: "int option"
  errors :: nat

definition getText :: "document \<Rightarrow> string" where
  "getText d = joinLines d"

definition toMetric :: "EngineMethod \<Rightarrow> Metric" where
  "toMetric data =
     \<lparr>metric_name = method_name data,
      complexity = cyclomatic data,
      maintainability =
        calculateMaintainability (halstead_effort data) (of_int (cyclomatic data))
          (of_int (sloc_logical data)),
      lines_start = lineStart data,
      lines_end = lineEnd data,
      errors = length (method_errors data)\<rparr>"

text \<open>\<^verbatim>\<open>analyzeComplexity(document)\<close>. The engine is called inside \<^verbatim>\<open>try\<close>; its
  exception is caught, logged on the console and turned into \<^verbatim>\<open>null\<close>.\<close>

definition analyzeComplexity ::
  "(string \<Rightarrow> engine_result) \<Rightarrow> document option \<Rightarrow> Metric list option \<times> effect list" where
  "analyzeComplexity engine doc =
     (case doc of
        None \<Rightarrow> (None, [ShowErrorMessage ''No active document found.''])
      | Some d \<Rightarrow>
          (let sourceCode = getText d
           in if sourceCode = [] then (None, [ShowErrorMessage ''The file is empty or invalid.''])
              else (case engine sourceCode of
                      EngineThrows \<Rightarrow> (None, [ConsoleError])
                    | NoAnalysis \<Rightarrow>
                        (None, [ShowErrorMessage ''Failed to analyze complexity. Invalid results.'',
                                ConsoleError])
                    | NoMethods \<Rightarrow>
                        (None, [ShowErrorMessage ''Failed to analyze complexity. Invalid results.'',
                                ConsoleError])
                    | Methods ms \<Rightarrow> (Some (map toMetric ms), []))))"

subsection \<open>Highlight projector\<close>

type_synonym projection = "Decoration list \<times> Decoration list \<times> ranges \<times> effect list"

text \<open>
  The body of the loop of \<^verbatim>\<open>highlightComplexFunctions\<close> for one metric. The accumulator
  holds \<^verbatim>\<open>complexityDecorations\<close>, \<^verbatim>\<open>refactorDecorations\<close>,
  \<^verbatim>\<open>state.complexityRanges\<close> and the console output. The arguments of the first
  \<^verbatim>\<open>new vscode.Range\<close> are evaluated before the constructor runs, so \<^verbatim>\<open>lineAt(endLine)\<close>
  throws first; whatever is thrown inside \<^verbatim>\<open>try\<close> is logged and the metric is dropped.
\<close>

definition highlightMetric :: "document \<Rightarrow> Metric \<Rightarrow> projection \<Rightarrow> projection" where
  "highlightMetric d metric acc =
     (case acc of (cds, rds, cr, out) \<Rightarrow>
        (case (lines_start metric, lines_end metric) of
           (Some s, Some e) \<Rightarrow>
             (let startLine = s - 1; endLine = e - 1
              in case andThen (lineAt d endLine)
                        (\<lambda>text. newRange startLine 0 endLine (int (length (trim text)))) of
                   Inl err \<Rightarrow> (cds, rds, cr, out @ [ConsoleError])
                 | Inr rng \<Rightarrow>
                     (let decoration =
                            \<lparr>deco_range = rng,
                             hoverMessage =
                               (if complexity metric > 9
                                then HighComplexity (complexity metric) (metric_name metric)
                                else OptimalComplexity (complexity metric) (metric_name metric)),
                             renderOptions =
                               (if complexity metric > 9 then HighLabel else OptimalLabel)\<rparr>
                      in if complexity metric > 9
                         then (case newRange startLine 0 startLine 0 of
                                 Inl err \<Rightarrow> (cds @ [decoration], rds, cr, out @ [ConsoleError])
                               | Inr refactorRange \<Rightarrow>
                                   (cds @ [decoration],
                                    rds @ [\<lparr>deco_range = refactorRange,
                                            hoverMessage = RefactorHint (metric_name metric),
                                            renderOptions = GutterIcon\<rparr>],
                                    AList.update (metric_name metric) rng cr,
                                    out))
                         else (cds @ [decoration], rds, cr, out)))
         | _ \<Rightarrow> (cds, rds, cr, out @ [ConsoleWarn])))"

text \<open>\<^verbatim>\<open>highlightComplexFunctions(metrics)\<close>. The first test of the line count returns
  at once; the second one, in the guard that clears the decorations, comes after it.\<close>

definition clearHighlights :: "State \<Rightarrow> Editor \<Rightarrow> State" where
  "clearHighlights st ed =
     st\<lparr>activeEditor := Some (ed\<lparr>complexityDecorations := [], refactorDecorations := []\<rparr>)\<rparr>"

definition highlightComplexFunctions :: "State \<Rightarrow> Metric list option \<Rightarrow> State \<times> effect list" where
  "highlightComplexFunctions st metrics =
     (case activeEditor st of
        None \<Rightarrow> (st, [ConsoleError])
      | Some ed \<Rightarrow>
          if length (document ed) < 10 then (st, [])
          else (case metrics of
                  None \<Rightarrow> (clearHighlights st ed, [])
                | Some ms \<Rightarrow>
                    if ms = [] \<or> length (document ed) < 10 then (clearHighlights st ed, [])
                    else (case fold (highlightMetric (document ed)) ms ([], [], [], []) of
                            (cds, rds, cr, out) \<Rightarrow>
                              (st\<lparr>complexityRanges := cr,
                                  activeEditor :=
                                    Some (ed\<lparr>complexityDecorations := cds,
                                             refactorDecorations := rds\<rparr>)\<rparr>,
                               out))))"

subsection \<open>Selection handler\<close>

text \<open>\<^verbatim>\<open>updateDecorations()\<close>.\<close>

definition updateDecorations ::
  "(string \<Rightarrow> engine_result) \<Rightarrow> State \<Rightarrow> error + State \<times> effect list" where
  "updateDecorations engine st =
     (case activeEditor st of
        None \<Rightarrow> Inr (st, [])
      | Some ed \<Rightarrow>
          if \<not> isValidSourceFile ed
          then Inr (st\<lparr>activeEditor := Some (ed\<lparr>testDecorations := []\<rparr>)\<rparr>, [])
          else
            (let (st1, out1) =
                   (if length (document ed) > 10
                    then (let (metrics, outA) = analyzeComplexity engine (Some (document ed));
                              (stH, outH) = highlightComplexFunctions st metrics
                          in (stH, outA @ outH))
                    else (st\<lparr>activeEditor := Some (ed\<lparr>complexityDecorations := []\<rparr>)\<rparr>, []))
             in andThen (detectFunctions st1 (document ed))
                  (\<lambda>(st2, out2).
                     andThen (createDecorations (functionRanges st2))
                       (\<lambda>decorations.
                          Inr (st2\<lparr>activeEditor :=
                                 map_option (\<lambda>ed2. ed2\<lparr>testDecorations := decorations\<rparr>)
                                   (activeEditor st2)\<rparr>,
                               out1 @ out2)))))"

text \<open>\<^verbatim>\<open>updateBatchButton()\<close>: it only shows or hides the status bar item.\<close>

definition updateBatchButton :: "State \<Rightarrow> effect list" where
  "updateBatchButton st =
     (case activeEditor st of
        None \<Rightarrow> [HideBatchButton]
      | Some ed \<Rightarrow>
          (if \<not> isValidSourceFile ed then [HideBatchButton] else []) @
          (if length (functionRanges st) \<ge> 2 then [ShowBatchButton] else [HideBatchButton]))"

record Selection =
  anchor :: Position
  active :: Position

definition isEmpty :: "Selection \<Rightarrow> bool" where
  "isEmpty sel \<longleftrightarrow> anchor sel = active sel"

record SelectionChangeEvent =
  textEditor :: nat
  selections :: "Selection list"

definition CLICK_DEBOUNCE_TIME :: int where
  "CLICK_DEBOUNCE_TIME = 2000"

definition TYPING_COOLDOWN :: int where
  "TYPING_COOLDOWN = 2000"

text \<open>The loop of the single-function click: the first entry of \<^verbatim>\<open>state.functionRanges\<close>
  whose range starts on the caret's line is handed to test generation.\<close>

fun dispatchSingle :: "document \<Rightarrow> ranges \<Rightarrow> int \<Rightarrow> error + effect list" where
  "dispatchSingle d [] posLine = Inr []"
| "dispatchSingle d ((n, r) # rest) posLine =
     (if start_line r = posLine
      then andThen (extractFunctionCode (Some d) (nat (start_line r)))
             (\<lambda>code. Inr [TestGeneration n r code])
      else dispatchSingle d rest posLine)"

text \<open>The click heuristics of \<^verbatim>\<open>handleSelectionChange\<close>, which follow the refresh of
  decorations and highlights: \<open>singleClick\<close> is the final part, the single-function click;
  \<open>interpretClick\<close> is the whole, from the reading of the caret's line on, with the batch
  click in front of it.\<close>

definition singleClick ::
  "State \<Rightarrow> Editor \<Rightarrow> Position \<Rightarrow> int \<Rightarrow> int \<Rightarrow> error + State \<times> effect list" where
  "singleClick st ed position lineLength currentTime =
     (let isDeliberateClick =
            ((character position = lineLength + 5 \<or> character position = lineLength + 6)
             \<and> currentTime - lastClickTime st > CLICK_DEBOUNCE_TIME)
      in if isDeliberateClick
         then andThen (dispatchSingle (document ed) (functionRanges st) (line position))
                (\<lambda>out. Inr (st\<lparr>lastClickTime := currentTime\<rparr>, out))
         else Inr (st, []))"

definition interpretClick ::
  "State \<Rightarrow> Editor \<Rightarrow> SelectionChangeEvent \<Rightarrow> Selection \<Rightarrow> int \<Rightarrow> error + State \<times> effect list" where
  "interpretClick st ed event selection currentTime =
     (let position = active selection
      in andThen (lineAt (document ed) (line position))
           (\<lambda>text.
              let lineLength = int (length (trim text))
              in if trim text = [] then Inr (st, [])
                 else if isEditingFunction st \<or> currentTime - lastTypingTime st < TYPING_COOLDOWN
                 then Inr (st, [])
                 else if line position = int (length (document ed)) - 1
                         \<and> length (functionRanges st) \<ge> 2
                         \<and> currentTime - lastClickTime st > CLICK_DEBOUNCE_TIME
                 then (let isBatchClick =
                             (character position \<ge> lineLength - 2
                              \<and> character position \<le> lineLength + 1)
                       in if isBatchClick \<and> length (selections event) > 1
                          then Inr (st\<lparr>lastClickTime := currentTime\<rparr>, [BatchTestGeneration])
                          else singleClick st ed position lineLength currentTime)
                 else singleClick st ed position lineLength currentTime))"

text \<open>\<^verbatim>\<open>handleSelectionChange(event)\<close>, with the reading of the clock as a parameter.\<close>

definition handleSelectionChange ::
  "(string \<Rightarrow> engine_result) \<Rightarrow> State \<Rightarrow> SelectionChangeEvent \<Rightarrow> int \<Rightarrow> error + State \<times> effect list" where
  "handleSelectionChange engine st event currentTime =
     (case activeEditor st of
        None \<Rightarrow> Inr (st, [])
      | Some ed0 \<Rightarrow>
          if textEditor event \<noteq> editorId ed0 then Inr (st, [])
          else (case selections event of
                  [] \<Rightarrow> Inr (st, [])
                | selection # others \<Rightarrow>
                    if \<not> isEmpty selection then Inr (st, [])
                    else
                      andThen (updateDecorations engine st)
                        (\<lambda>(st1, out1).
                           let out2 = updateBatchButton st1;
                               (st3, out3) =
                                 (case activeEditor st1 of
                                    None \<Rightarrow> (st1, [])
                                  | Some ed1 \<Rightarrow>
                                      if length (document ed1) > 10
                                      then (let (metrics, outA) =
                                                  analyzeComplexity engine (Some (document ed1));
                                                (stH, outH) = highlightComplexFunctions st1 metrics
                                            in (stH, outA @ outH))
                                      else (st1, []))
                           in (case activeEditor st3 of
                                 None \<Rightarrow> Inr (st3, out1 @ out2 @ out3)
                               | Some ed \<Rightarrow>
                                   andThen (interpretClick st3 ed event selection currentTime)
                                     (\<lambda>(st4, out4). Inr (st4, out1 @ out2 @ out3 @ out4))))))"

text \<open>The \<^verbatim>\<open>state\<close> object as the module creates it.\<close>

definition initialState :: State where
  "initialState =
     \<lparr>activeEditor = None, functionRanges = [], complexityRanges = [],
      isEditingFunction = False, lastClickTime = 0, lastTypingTime = 0\<rparr>"

subsection \<open>Notions used in the statements and proofs\<close>

definition lineRange :: "nat \<Rightarrow> string \<Rightarrow> Range" where
  "lineRange i text =
     \<lparr>start_line = int i, start_character = 0, end_line = int i,
      end_character = int (length (trim text))\<rparr>"

definition skipped :: "string \<Rightarrow> bool" where
  "skipped text \<longleftrightarrow>
     trim text = [] \<or> startsWith (trim text) ''//'' \<or> startsWith (trim text) ''/*''"

fun rejects :: "(char \<Rightarrow> bool) \<Rightarrow> rx \<Rightarrow> bool" where
  "rejects P (Lit l) = (case l of [] \<Rightarrow> False | x # xs \<Rightarrow> \<not> P x)"
| "rejects P (Plus k) = (\<forall>y. P y \<longrightarrow> \<not> inCls k y)"
| "rejects P (Cap r) = rejects P r"
| "rejects P (Seq (Opt a) b) = (rejects P a \<and> rejects P b)"
| "rejects P (Seq (Star k) b) = ((\<forall>y. P y \<longrightarrow> \<not> inCls k y) \<and> rejects P b)"
| "rejects P (Seq a b) = rejects P a"
| "rejects P r = False"

definition spaces :: "string \<Rightarrow> bool" where
  "spaces w \<longleftrightarrow> list_all isWhiteSpace w"

definition wordChars :: "string \<Rightarrow> bool" where
  "wordChars w \<longleftrightarrow> list_all isWordChar w"

definition isIdentifier :: "string \<Rightarrow> bool" where
  "isIdentifier nm \<longleftrightarrow> nm \<noteq> [] \<and> wordChars nm"

definition optKeyword :: "string \<Rightarrow> string \<Rightarrow> bool" where
  "optKeyword kw p \<longleftrightarrow>
     p = [] \<or> (startsWith p kw \<and> drop (length kw) p \<noteq> [] \<and> spaces (drop (length kw) p))"

definition optAsyncArrow :: "string \<Rightarrow> bool" where
  "optAsyncArrow p \<longleftrightarrow>
     p = [] \<or> (startsWith p ''async'' \<and> spaces (drop (length ''async'') p))"

definition noRParen :: "string \<Rightarrow> bool" where
  "noRParen ps \<longleftrightarrow> CHR '')'' \<notin> set ps"

inductive declares :: "string \<Rightarrow> string \<Rightarrow> bool" where
  namedFunction:
    "optKeyword ''export'' ex \<Longrightarrow> optKeyword ''async'' asy \<Longrightarrow> w1 \<noteq> [] \<Longrightarrow> spaces w1 \<Longrightarrow>
     isIdentifier nm \<Longrightarrow> spaces w2 \<Longrightarrow>
     declares (ex @ asy @ ''function'' @ w1 @ nm @ w2 @ ''('' @ rest) nm"
| constArrow:
    "optKeyword ''export'' ex \<Longrightarrow> w1 \<noteq> [] \<Longrightarrow> spaces w1 \<Longrightarrow> isIdentifier nm \<Longrightarrow> spaces w2 \<Longrightarrow>
     spaces w3 \<Longrightarrow> optAsyncArrow asy \<Longrightarrow> noRParen params \<Longrightarrow> spaces w4 \<Longrightarrow>
     declares (ex @ ''const'' @ w1 @ nm @ w2 @ ''='' @ w3 @ asy @ ''('' @ params @ '')'' @ w4
               @ ''=>'' @ rest) nm"
| constFunction:
    "optKeyword ''export'' ex \<Longrightarrow> w1 \<noteq> [] \<Longrightarrow> spaces w1 \<Longrightarrow> isIdentifier nm \<Longrightarrow> spaces w2 \<Longrightarrow>
     spaces w3 \<Longrightarrow> spaces w4 \<Longrightarrow>
     declares (ex @ ''const'' @ w1 @ nm @ w2 @ ''='' @ w3 @ ''function'' @ w4 @ ''('' @ rest) nm"
| methodShorthand:
    "optKeyword ''export'' ex \<Longrightarrow> optKeyword ''async'' asy \<Longrightarrow> isIdentifier nm \<Longrightarrow> spaces w2 \<Longrightarrow>
     noRParen params \<Longrightarrow> spaces w3 \<Longrightarrow>
     declares (ex @ asy @ nm @ w2 @ ''('' @ params @ '')'' @ w3 @ ''{'' @ rest) nm"

text \<open>Patterns in which group 1 takes part in every match.\<close>

fun captures :: "rx \<Rightarrow> bool" where
  "captures (Cap r) = True"
| "captures (Seq a b) = (captures a \<or> captures b)"
| "captures r = False"

text \<open>The lines \<open>s, \<dots>, e - 1\<close> of a document, the state of the brace counter after scanning
  them from \<open>(False, 0)\<close>, and the test made after line \<open>k\<close>.\<close>

definition slice :: "document \<Rightarrow> nat \<Rightarrow> nat \<Rightarrow> string list" where
  "slice d s e = take (e - s) (drop s d)"

definition braceScan :: "document \<Rightarrow> nat \<Rightarrow> nat \<Rightarrow> bool \<times> int" where
  "braceScan d s e = fold braceStep (concat (slice d s e)) (False, 0)"

definition balancedAfter :: "document \<Rightarrow> nat \<Rightarrow> nat \<Rightarrow> bool" where
  "balancedAfter d s k \<longleftrightarrow> fst (braceScan d s (Suc k)) \<and> snd (braceScan d s (Suc k)) = 0"

text \<open>The reading of the specification's "the moment depth returns to zero": after some
  character of line \<open>k\<close> an opening brace has been seen and the counter is zero.\<close>

definition balancedWithin :: "document \<Rightarrow> nat \<Rightarrow> nat \<Rightarrow> bool" where
  "balancedWithin d s k \<longleftrightarrow>
     list_ex (\<lambda>n. let st = fold braceStep (take n (d ! k)) (braceScan d s k)
                  in fst st \<and> snd st = 0)
       [1 ..< Suc (length (d ! k))]"

text \<open>The text through the first line after which the counter is balanced.\<close>

definition extract_end_of_line :: "document \<Rightarrow> nat \<Rightarrow> string option" where
  "extract_end_of_line d s =
     map_option (\<lambda>k. joinLines (slice d s (Suc k))) (find (balancedAfter d s) [s ..< length d])"

text \<open>The extractor as the specification words it: the text through the first line within
  which the counter returns to zero.\<close>

definition extract_stated :: "document \<Rightarrow> nat \<Rightarrow> string option" where
  "extract_stated d s =
     map_option (\<lambda>k. joinLines (slice d s (Suc k))) (find (balancedWithin d s) [s ..< length d])"

text \<open>What the refresh of decorations and highlights leaves alone: the editing flag, the
  two time stamps, and the identity, document, language and file name of the active
  editor.\<close>

definition sameSession :: "State \<Rightarrow> State \<Rightarrow> bool" where
  "sameSession st st' \<longleftrightarrow>
     isEditingFunction st' = isEditingFunction st
   \<and> lastClickTime st' = lastClickTime st
   \<and> lastTypingTime st' = lastTypingTime st
   \<and> (case activeEditor st of
         None \<Rightarrow> activeEditor st' = None
       | Some ed \<Rightarrow> (case activeEditor st' of
                       None \<Rightarrow> False
                     | Some ed' \<Rightarrow>
                         document ed' = document ed \<and> editorId ed' = editorId ed
                       \<and> languageId ed' = languageId ed \<and> fileName ed' = fileName ed))"

text \<open>Example inputs: a three-line document that still carries decorations, the metric of
  scenario B, ten-line and two-line documents, and a caret at the end of the last line.\<close>

definition shortEditor :: Editor where
  "shortEditor =
     \<lparr>editorId = 1,
      document = [''function f() {'', ''  return 1;'', ''}''],
      languageId = ''javascript'',
      fileName = ''a.js'',
      testDecorations = [],
      complexityDecorations =
        [\<lparr>deco_range = \<lparr>start_line = 0, start_character = 0, end_line = 2, end_character = 1\<rparr>,
          hoverMessage = HighComplexity 12 ''f'', renderOptions = HighLabel\<rparr>],
      refactorDecorations =
        [\<lparr>deco_range = \<lparr>start_line = 0, start_character = 0, end_line = 0, end_character = 0\<rparr>,
          hoverMessage = RefactorHint ''f'', renderOptions = GutterIcon\<rparr>]\<rparr>"

definition fooMetric :: Metric where
  "fooMetric =
     \<lparr>metric_name = ''foo'', complexity = 12,
      maintainability = calculateMaintainability 500 12 20,
      lines_start = Some 3, lines_end = Some 10, errors = 0\<rparr>"

definition longEditor :: Editor where
  "longEditor =
     \<lparr>editorId = 2,
      document = [''// demo'', [], ''function foo(a) {'', ''  if (a) {'', ''    return 1;'',
                  ''  }'', ''  return 2;'', ''  // end'', ''  // of foo'', ''}''],
      languageId = ''javascript'',
      fileName = ''b.js'',
      testDecorations = [],
      complexityDecorations = [],
      refactorDecorations = []\<rparr>"

definition twoFunctionEditor :: Editor where
  "twoFunctionEditor =
     \<lparr>editorId = 1,
      document = [''function a() {}'' @ placeholder, ''function b() {}'' @ placeholder],
      languageId = ''javascript'',
      fileName = ''demo.js'',
      testDecorations = [],
      complexityDecorations = [],
      refactorDecorations = []\<rparr>"

definition clickState :: State where
  "clickState = initialState\<lparr>activeEditor := Some twoFunctionEditor\<rparr>"

definition caretAtEnd :: Selection where
  "caretAtEnd = \<lparr>anchor = \<lparr>line = 1, character = 15\<rparr>, active = \<lparr>line = 1, character = 15\<rparr>\<rparr>"

definition detectedAB :: ranges where
  "detectedAB =
     [(''a'', \<lparr>start_line = 0, start_character = 0, end_line = 0, end_character = 15\<rparr>),
      (''b'', \<lparr>start_line = 1, start_character = 0, end_line = 1, end_character = 15\<rparr>)]"

section \<open>Properties\<close>

subsection \<open>Maintainability calculator\<close>

lemma toFixed2_mono: "x \<le> y \<Longrightarrow> toFixed2 x \<le> toFixed2 y"
  unfolding toFixed2_def
  by (intro divide_right_mono of_int_le_iff[THEN iffD2] floor_mono) simp_all

lemma toFixed2_nonneg: "0 \<le> x \<Longrightarrow> 0 \<le> toFixed2 x"
  unfolding toFixed2_def by simp

lemma toFixed2_of_int: "toFixed2 (of_int n) = of_int n"
proof -
  have "\<lfloor>(of_int n :: real) * 100 + 1 / 2\<rfloor> = n * 100"
    by linarith
  then show ?thesis
    unfolding toFixed2_def by simp
qed

lemma ln_10_gt_2: "(2::real) < ln 10"
proof -
  have "exp (2::real) = exp 1 * exp 1"
    by (simp add: exp_add [symmetric])
  also have "\<dots> \<le> 3 * 3"
    by (intro mult_mono exp_le) simp_all
  also have "\<dots> < (10::real)"
    by simp
  finally have "exp (2::real) < exp (ln 10)"
    by simp
  then show ?thesis
    by (simp only: exp_less_cancel_iff)
qed

lemma ln_epsilon: "ln epsilon = - 5 * ln 10"
proof -
  have "ln epsilon = ln (inverse ((10::real) ^ 5))"
    by (simp add: epsilon_def)
  also have "\<dots> = - ln ((10::real) ^ 5)"
    by (simp only: ln_inverse)
  also have "\<dots> = - 5 * ln 10"
    by (simp only: ln_realpow)
  finally show ?thesis .
qed

lemma ln_epsilon_less: "ln epsilon < - 10"
  using ln_10_gt_2 by (simp add: ln_epsilon)

lemma calculateMaintainability_zero_ge: "225 \<le> calculateMaintainability 0 0 0"
proof -
  have "(225::real) \<le> (171 - 5.2 * ln epsilon - 16.2 * ln epsilon) * 100 / 171"
    using ln_epsilon_less by simp
  then have "toFixed2 (of_int 225) \<le> calculateMaintainability 0 0 0"
    unfolding calculateMaintainability_def Let_def
    by (intro toFixed2_mono) (simp add: max_def)
  then show ?thesis
    by (simp only: toFixed2_of_int)
qed

lemma calculateMaintainability_nonneg: "0 \<le> calculateMaintainability e c s"
  unfolding calculateMaintainability_def Let_def
  by (intro toFixed2_nonneg) simp

lemma calculateMaintainability_le_100:
  assumes "1 \<le> e + epsilon" and "1 \<le> s + epsilon" and "0 \<le> c"
  shows "calculateMaintainability e c s \<le> 100"
proof -
  have "0 \<le> ln (e + epsilon)" and "0 \<le> ln (s + epsilon)"
    using assms by simp_all
  then have "(171 - 5.2 * ln (e + epsilon) - 0.23 * c - 16.2 * ln (s + epsilon)) * 100 / 171
      \<le> of_int 100"
    using assms(3) by simp
  then have "calculateMaintainability e c s \<le> toFixed2 (of_int 100)"
    unfolding calculateMaintainability_def Let_def
    by (intro toFixed2_mono) simp
  then show ?thesis
    by (simp only: toFixed2_of_int)
qed

lemma calculateMaintainability_plus1_zero: "calculateMaintainability_plus1 0 0 0 = 100"
proof -
  have "calculateMaintainability_plus1 0 0 0 = toFixed2 (of_int 100)"
    unfolding calculateMaintainability_plus1_def Let_def by simp
  then show ?thesis
    by (simp only: toFixed2_of_int)
qed

text \<open>
  C1, as stated: \<^verbatim>\<open>calculateMaintainability(0, 0, 0)\<close> is 100 up to the two-decimal
  rounding. With \<open>epsilon = 1e-5\<close> both logarithms are \<open>ln 1e-5 < - 10\<close>, and the index
  is above 225.
\<close>

theorem calculateMaintainability_zero_not_100:
  "\<not> \<bar>calculateMaintainability 0 0 0 - 100\<bar> \<le> 1 / 100"
  using calculateMaintainability_zero_ge by simp

text \<open>
  C1, amended. With \<open>epsilon = 1e-5\<close> the index at \<open>(0, 0, 0)\<close> is at least 225, while the
  copy of the calculator that adds 1 instead of \<open>epsilon\<close> gives exactly 100 there. For
  non-negative inputs the index is never negative, and it is at most 100 as soon as
  \<open>effort + epsilon \<ge> 1\<close> and \<open>sloc + epsilon \<ge> 1\<close>.
\<close>

theorem calculateMaintainability_bounds:
  "225 \<le> calculateMaintainability 0 0 0
 \<and> calculateMaintainability_plus1 0 0 0 = 100
 \<and> (0 \<le> e \<and> 0 \<le> c \<and> 0 \<le> s \<longrightarrow> 0 \<le> calculateMaintainability e c s)
 \<and> (1 \<le> e + epsilon \<and> 1 \<le> s + epsilon \<and> 0 \<le> c \<longrightarrow> calculateMaintainability e c s \<le> 100)"
  using calculateMaintainability_zero_ge calculateMaintainability_plus1_zero
    calculateMaintainability_nonneg calculateMaintainability_le_100
  by blast

theorem calculateMaintainability_bounds_witness:
  "0 \<le> calculateMaintainability 1 0 1 \<and> calculateMaintainability 1 0 1 \<le> 100"
  using calculateMaintainability_bounds [of 1 0 1] by (simp add: epsilon_def)

text \<open>
  C9. With effort and logical line count fixed (non-negative), a larger cyclomatic score
  never gives a larger index; with cyclomatic score and line count fixed, a larger effort
  never gives a larger index.
\<close>

theorem calculateMaintainability_antimono:
  assumes "0 \<le> e1" and "e1 \<le> e2" and "0 \<le> c1" and "c1 \<le> c2" and "0 \<le> s"
  shows "calculateMaintainability e1 c2 s \<le> calculateMaintainability e1 c1 s
       \<and> calculateMaintainability e2 c1 s \<le> calculateMaintainability e1 c1 s"
proof
  show "calculateMaintainability e1 c2 s \<le> calculateMaintainability e1 c1 s"
    unfolding calculateMaintainability_def Let_def
    using assms by (intro toFixed2_mono max.mono divide_right_mono mult_right_mono) simp_all
next
  have pos: "0 < e1 + epsilon" "0 < e2 + epsilon"
    using assms by (simp_all add: epsilon_def add_nonneg_pos)
  have "ln (e1 + epsilon) \<le> ln (e2 + epsilon)"
    using assms pos by simp
  then show "calculateMaintainability e2 c1 s \<le> calculateMaintainability e1 c1 s"
    unfolding calculateMaintainability_def Let_def
    by (intro toFixed2_mono max.mono divide_right_mono mult_right_mono) simp_all
qed

theorem calculateMaintainability_antimono_witness:
  "calculateMaintainability 0 1 0 \<le> calculateMaintainability 0 0 0
 \<and> calculateMaintainability 1 0 0 \<le> calculateMaintainability 0 0 0"
  using calculateMaintainability_antimono [of 0 1 0 1 0] by simp

subsection \<open>The matcher on the four patterns\<close>

lemma startsWith_simps [simp]:
  "startsWith s [] = True"
  "startsWith [] (y # ys) = False"
  "startsWith (x # xs) (y # ys) = (x = y \<and> startsWith xs ys)"
  by (auto simp: startsWith_def)

lemma white_not_word: "isWhiteSpace c \<Longrightarrow> \<not> isWordChar c"
  by (auto simp: isWhiteSpace_def isWordChar_def)

lemma nonword_neq:
  assumes "\<not> isWordChar x"
  shows "x \<noteq> CHR ''e''" "x \<noteq> CHR ''a''" "x \<noteq> CHR ''f''" "x \<noteq> CHR ''c''"
  using assms by (auto simp: isWordChar_def)

lemma run_patterns_nonword:
  assumes "\<not> isWordChar x" and "p \<in> set patterns"
  shows "run p (c, x # xs) = []"
  using assms(2) nonword_neq [OF assms(1)] assms(1)
  by (auto simp: patterns_def pattern1_def pattern2_def pattern3_def pattern4_def
      optExport_def optAsync_def)

lemma run_patterns_Nil:
  assumes "p \<in> set patterns"
  shows "run p (c, []) = []"
  using assms
  by (auto simp: patterns_def pattern1_def pattern2_def pattern3_def pattern4_def
      optExport_def optAsync_def)

lemma firstAccepted_no_match:
  "\<forall>p \<in> set ps. matchAnchored text p = None \<Longrightarrow> firstAccepted ps text = None"
  by (induction ps) auto

lemma findFunctionDefinition_nonword:
  "\<not> isWordChar x \<Longrightarrow> findFunctionDefinition (x # xs) = None"
  unfolding findFunctionDefinition_def
  by (rule firstAccepted_no_match) (simp add: matchAnchored_def run_patterns_nonword)

subsection \<open>The loop of the detector\<close>

lemma set_update_subset: "set (AList.update k v al) \<subseteq> insert (k, v) (set al)"
  by (induction al) auto

lemma keys_update: "fst ` set (AList.update k v al) = insert k (fst ` set al)"
proof -
  have "set (map fst (AList.update k v al)) = insert k (set (map fst al))"
    by (auto simp: update_keys)
  then show ?thesis
    by (simp only: set_map)
qed

lemma newRange_line:
  "newRange (int i) 0 (int i) (int n) =
     Inr \<lparr>start_line = int i, start_character = 0, end_line = int i, end_character = int n\<rparr>"
  by (simp add: newRange_def)

lemma lineAt_nat: "i < length d \<Longrightarrow> lineAt d (int i) = Inr (d ! i)"
  by (simp add: lineAt_def)

lemma detectLine_eq:
  assumes "i < length d"
  shows "detectLine d i acc =
     (if skipped (d ! i) then Inr acc
      else case findFunctionDefinition (d ! i) of
             None \<Rightarrow> Inr acc
           | Some n \<Rightarrow>
               Inr (AList.update n (lineRange i (d ! i)) (fst acc),
                    if \<not> endsWith (d ! i) placeholder
                    then snd acc @ [\<lparr>insertLine = int i, insertCharacter = int (length (d ! i)),
                                     newText = placeholder\<rparr>]
                    else snd acc))"
  using assms
  by (simp add: detectLine_def lineAt_nat skipped_def newRange_line lineRange_def Let_def
      split: option.split)

lemma detectLine_skip:
  "i < length d \<Longrightarrow> skipped (d ! i) \<or> findFunctionDefinition (d ! i) = None
     \<Longrightarrow> detectLine d i acc = Inr acc"
  by (auto simp: detectLine_eq)

lemma detectLine_hit:
  "i < length d \<Longrightarrow> \<not> skipped (d ! i) \<Longrightarrow> findFunctionDefinition (d ! i) = Some n
     \<Longrightarrow> \<exists>e. detectLine d i acc = Inr (AList.update n (lineRange i (d ! i)) (fst acc), e)"
  by (simp add: detectLine_eq)

lemma detectLine_returns: "i < length d \<Longrightarrow> \<exists>acc1. detectLine d i acc = Inr acc1"
  by (cases "findFunctionDefinition (d ! i)") (simp_all add: detectLine_eq)

lemma detectLoop_returns: "\<exists>acc'. detectLoop d i acc = Inr acc'"
proof (induction d i acc rule: detectLoop.induct)
  case (1 d i acc)
  show ?case
  proof (cases "i < length d")
    case False
    then show ?thesis
      by (simp add: detectLoop.simps)
  next
    case True
    then obtain acc1 where step: "detectLine d i acc = Inr acc1"
      using detectLine_returns by blast
    with True "1.IH" [of acc1] show ?thesis
      by (subst detectLoop.simps) simp
  qed
qed

lemma detectLoop_sound:
  assumes "detectLoop d i acc = Inr acc'" and "(n, r) \<in> set (fst acc')"
  shows "(n, r) \<in> set (fst acc) \<or>
         (\<exists>j. i \<le> j \<and> j < length d \<and> \<not> skipped (d ! j)
              \<and> findFunctionDefinition (d ! j) = Some n \<and> r = lineRange j (d ! j))"
  using assms
proof (induction d i acc rule: detectLoop.induct)
  case (1 d i acc)
  show ?case
  proof (cases "i < length d")
    case False
    with "1.prems" show ?thesis
      by (simp add: detectLoop.simps)
  next
    case True
    obtain acc1 where step: "detectLine d i acc = Inr acc1"
      using True detectLine_returns by blast
    with True "1.prems" have rest: "detectLoop d (Suc i) acc1 = Inr acc'"
      by (subst (asm) detectLoop.simps) simp
    from "1.IH" [OF True step rest "1.prems"(2)]
    consider (old) "(n, r) \<in> set (fst acc1)"
      | (later) j where "Suc i \<le> j" "j < length d" "\<not> skipped (d ! j)"
          "findFunctionDefinition (d ! j) = Some n" "r = lineRange j (d ! j)"
      by blast
    then show ?thesis
    proof cases
      case later
      then show ?thesis
        by (intro disjI2 exI [of _ j]) simp
    next
      case old
      show ?thesis
      proof (cases "skipped (d ! i) \<or> findFunctionDefinition (d ! i) = None")
        case True
        with step \<open>i < length d\<close> have "acc1 = acc"
          using detectLine_skip [of i d acc] by simp
        with old show ?thesis
          by simp
      next
        case False
        then obtain m where m: "findFunctionDefinition (d ! i) = Some m" "\<not> skipped (d ! i)"
          by auto
        with step \<open>i < length d\<close>
        have "fst acc1 = AList.update m (lineRange i (d ! i)) (fst acc)"
          using detectLine_hit [of i d m acc] by auto
        with old set_update_subset [of m "lineRange i (d ! i)" "fst acc"]
        have "(n, r) = (m, lineRange i (d ! i)) \<or> (n, r) \<in> set (fst acc)"
          by auto
        with m \<open>i < length d\<close> show ?thesis
          by auto
      qed
    qed
  qed
qed

lemma detectLoop_complete:
  assumes "detectLoop d i acc = Inr acc'"
    and "n \<in> fst ` set (fst acc) \<or>
         (\<exists>j. i \<le> j \<and> j < length d \<and> \<not> skipped (d ! j)
              \<and> findFunctionDefinition (d ! j) = Some n)"
  shows "n \<in> fst ` set (fst acc')"
  using assms
proof (induction d i acc rule: detectLoop.induct)
  case (1 d i acc)
  show ?case
  proof (cases "i < length d")
    case False
    with "1.prems" show ?thesis
      by (auto simp: detectLoop.simps)
  next
    case True
    obtain acc1 where step: "detectLine d i acc = Inr acc1"
      using True detectLine_returns by blast
    with True "1.prems" have rest: "detectLoop d (Suc i) acc1 = Inr acc'"
      by (subst (asm) detectLoop.simps) simp
    have keep: "fst ` set (fst acc) \<subseteq> fst ` set (fst acc1)"
    proof (cases "skipped (d ! i) \<or> findFunctionDefinition (d ! i) = None")
      case True
      with step \<open>i < length d\<close> show ?thesis
        using detectLine_skip [of i d acc] by simp
    next
      case False
      then obtain m where "findFunctionDefinition (d ! i) = Some m" "\<not> skipped (d ! i)"
        by auto
      with step \<open>i < length d\<close>
      have "fst acc1 = AList.update m (lineRange i (d ! i)) (fst acc)"
        using detectLine_hit [of i d m acc] by auto
      then show ?thesis
        by (simp only: keys_update) blast
    qed
    have here: "n \<in> fst ` set (fst acc1)"
      if "\<not> skipped (d ! i)" "findFunctionDefinition (d ! i) = Some n"
    proof -
      from step True that
      have "fst acc1 = AList.update n (lineRange i (d ! i)) (fst acc)"
        using detectLine_hit [of i d n acc] by auto
      then show ?thesis
        by (simp only: keys_update) blast
    qed
    from "1.prems"(2) have "n \<in> fst ` set (fst acc1) \<or>
         (\<exists>j. Suc i \<le> j \<and> j < length d \<and> \<not> skipped (d ! j)
              \<and> findFunctionDefinition (d ! j) = Some n)"
    proof (elim disjE exE conjE)
      assume "n \<in> fst ` set (fst acc)"
      with keep show ?thesis by blast
    next
      fix j
      assume j: "i \<le> j" "j < length d" "\<not> skipped (d ! j)"
        "findFunctionDefinition (d ! j) = Some n"
      show ?thesis
      proof (cases "j = i")
        case True
        with j here show ?thesis by simp
      next
        case False
        with j have "Suc i \<le> j" by simp
        with j show ?thesis by blast
      qed
    qed
    from "1.IH" [OF True step rest this] show ?thesis .
  qed
qed

subsection \<open>The matcher without backtracking\<close>

text \<open>
  When what follows a greedy repetition cannot start with a character of the repeated
  class (\<open>rejects\<close>, a syntactic test), only the longest repetition can lead to a match,
  and \<open>run\<close> on a sequence is computed from left to right.
\<close>

lemma concat_map_single:
  assumes "\<And>x. x \<in> set xs \<Longrightarrow> f x = []"
  shows "concat (map f (y # xs)) = f y"
  using assms by (induction xs) auto

lemma rev_upt_from: "a \<le> m \<Longrightarrow> rev [a ..< Suc m] = m # rev [a ..< m]"
  by simp

lemma drop_in_run:
  assumes "n < length (takeWhile P s)"
  shows "\<exists>y ys. drop n s = y # ys \<and> P y"
proof -
  from assms have n: "n < length s"
    using length_takeWhile_le [of P s] by simp
  have "P (takeWhile P s ! n)"
    using assms nth_mem set_takeWhileD by metis
  then have "P (s ! n)"
    using assms by (simp add: takeWhile_nth)
  with n show ?thesis
    by (metis Cons_nth_drop_Suc)
qed

lemma drop_takeWhile_length: "drop (length (takeWhile P s)) s = dropWhile P s"
  by (metis append_eq_conv_conj takeWhile_dropWhile_id)

lemma take_takeWhile_length: "take (length (takeWhile P s)) s = takeWhile P s"
  by (metis append_eq_conv_conj takeWhile_dropWhile_id)

lemma run_Seq_Star:
  assumes rej: "\<And>c y ys. inCls k y \<Longrightarrow> run r (c, y # ys) = []"
  shows "run (Seq (Star k) r) (c, s) = run r (c, dropWhile (inCls k) s)"
proof -
  let ?m = "length (takeWhile (inCls k) s)"
  have "run r (c, drop n s) = []" if "n \<in> set (rev [0 ..< ?m])" for n
    using that drop_in_run [of n "inCls k" s] rej by auto
  then have "concat (map (\<lambda>n. run r (c, drop n s)) (?m # rev [0 ..< ?m])) = run r (c, drop ?m s)"
    by (rule concat_map_single)
  then show ?thesis
    by (simp add: comp_def drop_takeWhile_length)
qed

lemma run_Seq_Plus:
  assumes rej: "\<And>c y ys. inCls k y \<Longrightarrow> run r (c, y # ys) = []"
  shows "run (Seq (Plus k) r) (c, s) =
     (if takeWhile (inCls k) s = [] then [] else run r (c, dropWhile (inCls k) s))"
proof (cases "takeWhile (inCls k) s = []")
  case True
  then show ?thesis by simp
next
  case False
  let ?m = "length (takeWhile (inCls k) s)"
  from False have m: "1 \<le> ?m"
    by (simp add: Suc_le_eq)
  have "run r (c, drop n s) = []" if "n \<in> set (rev [1 ..< ?m])" for n
    using that drop_in_run [of n "inCls k" s] rej by auto
  then have "concat (map (\<lambda>n. run r (c, drop n s)) (?m # rev [1 ..< ?m])) = run r (c, drop ?m s)"
    by (rule concat_map_single)
  with False m show ?thesis
    by (simp add: comp_def drop_takeWhile_length rev_upt_from del: upt_Suc)
qed

lemma run_Seq_Cap_Plus:
  assumes rej: "\<And>c y ys. inCls k y \<Longrightarrow> run r (c, y # ys) = []"
  shows "run (Seq (Cap (Plus k)) r) (c, s) =
     (if takeWhile (inCls k) s = [] then []
      else run r (Some (takeWhile (inCls k) s), dropWhile (inCls k) s))"
proof (cases "takeWhile (inCls k) s = []")
  case True
  then show ?thesis by simp
next
  case False
  let ?m = "length (takeWhile (inCls k) s)"
  let ?f = "\<lambda>n. run r (Some (take (length s - length (drop n s)) s), drop n s)"
  from False have m: "1 \<le> ?m"
    by (simp add: Suc_le_eq)
  have mle: "?m \<le> length s"
    by (rule length_takeWhile_le)
  have "?f n = []" if "n \<in> set (rev [1 ..< ?m])" for n
    using that drop_in_run [of n "inCls k" s] rej by auto
  then have "concat (map ?f (?m # rev [1 ..< ?m])) = ?f ?m"
    by (rule concat_map_single)
  moreover have "length s - length (drop ?m s) = ?m"
    using mle by simp
  ultimately show ?thesis
    using False m
    by (simp add: comp_def drop_takeWhile_length take_takeWhile_length rev_upt_from del: upt_Suc)
qed

lemma run_Seq_Lit:
  "run (Seq (Lit l) r) (c, s) = (if startsWith s l then run r (c, drop (length l) s) else [])"
  by simp

lemma run_Seq_Opt: "run (Seq (Opt a) r) st = run (Seq a r) st @ run r st"
  by simp

lemma concat_map_concat:
  "concat (map f (concat xss)) = concat (map (\<lambda>xs. concat (map f xs)) xss)"
  by (induction xss) simp_all

lemma run_Seq_Seq: "run (Seq (Seq a b) r) st = run (Seq a (Seq b r)) st"
proof -
  have "run (Seq b r) = (\<lambda>x. concat (map (run r) (run b x)))"
    by (rule ext) simp
  then show ?thesis
    by (simp add: concat_map_concat comp_def)
qed

lemma inCls_fun [simp]:
  "inCls Space = isWhiteSpace" "inCls Word = isWordChar" "inCls NotRParen = (\<lambda>c. c \<noteq> CHR '')'')"
  by (rule ext, simp)+

lemma literal_classes [simp]:
  "\<not> isWhiteSpace CHR ''e''" "\<not> isWhiteSpace CHR ''a''" "\<not> isWhiteSpace CHR ''f''" "\<not> isWhiteSpace CHR ''c''"
  "\<not> isWhiteSpace CHR ''(''" "\<not> isWhiteSpace CHR '')''" "\<not> isWhiteSpace CHR ''=''" "\<not> isWhiteSpace CHR ''{''"
  "\<not> isWordChar CHR ''(''" "\<not> isWordChar CHR '')''" "\<not> isWordChar CHR ''=''" "\<not> isWordChar CHR ''{''"
  by (simp_all add: isWhiteSpace_def isWordChar_def)

lemma rejects_sound: "rejects P r \<Longrightarrow> P y \<Longrightarrow> run r (c, y # ys) = []"
proof (induction P r arbitrary: c rule: rejects.induct)
  case (1 P l)
  then show ?case by (cases l) auto
qed simp_all

lemma run_Seq_Star_det:
  "rejects (inCls k) r \<Longrightarrow> run (Seq (Star k) r) (c, s) = run r (c, dropWhile (inCls k) s)"
  by (rule run_Seq_Star) (rule rejects_sound)

lemma run_Seq_Plus_det:
  "rejects (inCls k) r \<Longrightarrow> run (Seq (Plus k) r) (c, s) =
     (if takeWhile (inCls k) s = [] then [] else run r (c, dropWhile (inCls k) s))"
  by (rule run_Seq_Plus) (rule rejects_sound)

lemma run_Seq_Cap_Plus_det:
  "rejects (inCls k) r \<Longrightarrow> run (Seq (Cap (Plus k)) r) (c, s) =
     (if takeWhile (inCls k) s = [] then []
      else run r (Some (takeWhile (inCls k) s), dropWhile (inCls k) s))"
  by (rule run_Seq_Cap_Plus) (rule rejects_sound)

lemma run_Seq_Lit_Cons:
  "run (Seq (Lit l) r) (c, x # xs) =
     (if startsWith (x # xs) l then run r (c, drop (length l) (x # xs)) else [])"
  by simp

lemmas det = run_Seq_Star_det run_Seq_Plus_det run_Seq_Cap_Plus_det run_Seq_Lit_Cons run_Seq_Opt
  run_Seq_Seq

subsection \<open>The four shapes\<close>

lemma optKeywordE:
  assumes "optKeyword kw p"
  obtains "p = []" | a w where "p = kw @ a # w" "isWhiteSpace a" "spaces w"
proof (cases "p = []")
  case True
  then show ?thesis by (rule that(1))
next
  case False
  with assms have sw: "startsWith p kw" and ne: "drop (length kw) p \<noteq> []"
    and sp: "spaces (drop (length kw) p)"
    by (auto simp: optKeyword_def)
  from ne obtain a w where aw: "drop (length kw) p = a # w"
    by (cases "drop (length kw) p") auto
  from sw have "p = kw @ drop (length kw) p"
    by (metis append_take_drop_id startsWith_def)
  with aw sp show ?thesis
    by (intro that(2) [of a w]) (auto simp: spaces_def)
qed

lemma optAsyncArrowE:
  assumes "optAsyncArrow p"
  obtains "p = []" | w where "p = ''async'' @ w" "spaces w"
proof (cases "p = []")
  case True
  then show ?thesis by (rule that(1))
next
  case False
  with assms have sw: "startsWith p ''async''" and sp: "spaces (drop (length ''async'') p)"
    by (auto simp: optAsyncArrow_def)
  from sw have "p = ''async'' @ drop (length ''async'') p"
    by (metis append_take_drop_id startsWith_def)
  with sp show ?thesis
    by (intro that(2) [of "drop (length ''async'') p"]) auto
qed

lemma takeWhile_spaces [simp]:
  "spaces w \<Longrightarrow> takeWhile isWhiteSpace (w @ t) = w @ takeWhile isWhiteSpace t"
  "spaces w \<Longrightarrow> dropWhile isWhiteSpace (w @ t) = dropWhile isWhiteSpace t"
  by (simp_all add: spaces_def list_all_iff)

lemma takeWhile_wordChars [simp]:
  "wordChars w \<Longrightarrow> takeWhile isWordChar (w @ t) = w @ takeWhile isWordChar t"
  "wordChars w \<Longrightarrow> dropWhile isWordChar (w @ t) = dropWhile isWordChar t"
  by (simp_all add: wordChars_def list_all_iff)

lemma takeWhile_noRParen [simp]:
  "noRParen w \<Longrightarrow> takeWhile (\<lambda>c. c \<noteq> CHR '')'') (w @ t) = w @ takeWhile (\<lambda>c. c \<noteq> CHR '')'') t"
  "noRParen w \<Longrightarrow> dropWhile (\<lambda>c. c \<noteq> CHR '')'') (w @ t) = dropWhile (\<lambda>c. c \<noteq> CHR '')'') t"
  by (induction w) (auto simp: noRParen_def)

lemma word_in_spaces [simp]:
  "spaces w \<Longrightarrow> takeWhile isWordChar (w @ t) = (if w = [] then takeWhile isWordChar t else [])"
  "spaces w \<Longrightarrow> dropWhile isWordChar (w @ t) = (if w = [] then dropWhile isWordChar t else w @ t)"
  by (cases w; simp add: spaces_def white_not_word)+

lemma space_in_words [simp]:
  "wordChars w \<Longrightarrow> takeWhile isWhiteSpace (w @ t) = (if w = [] then takeWhile isWhiteSpace t else [])"
  "wordChars w \<Longrightarrow> dropWhile isWhiteSpace (w @ t) = (if w = [] then dropWhile isWhiteSpace t else w @ t)"
  by (cases w; auto simp add: wordChars_def dest: white_not_word)+

lemma startsWith_delimited:
  assumes "wordChars kw" and "\<not> isWordChar h"
  shows "startsWith (nm @ h # u) kw = startsWith nm kw"
proof (cases "length kw \<le> length nm")
  case True
  then show ?thesis
    by (simp add: startsWith_def)
next
  case False
  then obtain n where n: "length kw - length nm = Suc n"
    by (cases "length kw - length nm") auto
  from False have "\<not> startsWith nm kw"
    by (auto simp: startsWith_def)
  moreover have "\<not> startsWith (nm @ h # u) kw"
  proof
    assume "startsWith (nm @ h # u) kw"
    then have "kw = take (length kw) nm @ h # take n u"
      using n by (simp add: startsWith_def)
    then have "h \<in> set kw"
      by (metis in_set_conv_decomp)
    with assms show False
      by (simp add: wordChars_def list_all_iff)
  qed
  ultimately show ?thesis
    by simp
qed

lemma startsWith_identifier:
  assumes "wordChars kw" and "spaces w2"
  shows "startsWith (nm @ w2 @ CHR ''('' # t) kw = startsWith nm kw"
proof (cases w2)
  case Nil
  with assms(1) show ?thesis
    by (simp add: startsWith_delimited)
next
  case (Cons h u)
  with assms(2) have "\<not> isWordChar h"
    by (simp add: spaces_def white_not_word)
  with assms(1) Cons show ?thesis
    by (simp add: startsWith_delimited)
qed

lemma keyword_on_identifier:
  assumes "wordChars kw" and "wordChars nm" and "spaces w2" and "rejects isWhiteSpace r"
    and "rejects (\<lambda>y. y = CHR ''('') r"
  shows "run (Seq (Lit kw) (Seq (Plus Space) r)) (c, nm @ w2 @ CHR ''('' # t) = []"
proof (cases "startsWith nm kw")
  case False
  then show ?thesis
    using assms(1,3) by (simp add: run_Seq_Lit startsWith_identifier del: run.simps(2-6))
next
  case True
  then have len: "length kw \<le> length nm"
    by (metis startsWith_def length_take min.cobounded1 min.commute)
  have wm: "wordChars (drop (length kw) nm)"
    using assms(2) by (auto simp: wordChars_def list_all_iff dest: in_set_dropD)
  have par: "run r (c, CHR ''('' # t) = []"
    using assms(5) by (rule rejects_sound) simp
  show ?thesis
    using assms(3,4) len wm par True
    by (simp add: run_Seq_Lit startsWith_identifier assms(1-3) run_Seq_Plus_det
        del: run.simps(2-6))
qed

lemma wordChars_literals [simp]:
  "wordChars ''export''" "wordChars ''async''" "wordChars ''function''" "wordChars ''const''"
  by (simp_all add: wordChars_def isWordChar_def)

lemma keyword_chars [simp]:
  "isWordChar CHR ''a''" "isWordChar CHR ''c''" "isWordChar CHR ''e''" "isWordChar CHR ''f''" "isWordChar CHR ''i''" "isWordChar CHR ''n''" "isWordChar CHR ''o''" "isWordChar CHR ''p''" "isWordChar CHR ''r''" "isWordChar CHR ''s''" "isWordChar CHR ''t''" "isWordChar CHR ''u''" "isWordChar CHR ''x''" "isWordChar CHR ''y''"
  "\<not> isWhiteSpace CHR ''a''" "\<not> isWhiteSpace CHR ''c''" "\<not> isWhiteSpace CHR ''e''" "\<not> isWhiteSpace CHR ''f''" "\<not> isWhiteSpace CHR ''i''" "\<not> isWhiteSpace CHR ''n''" "\<not> isWhiteSpace CHR ''o''" "\<not> isWhiteSpace CHR ''p''" "\<not> isWhiteSpace CHR ''r''" "\<not> isWhiteSpace CHR ''s''" "\<not> isWhiteSpace CHR ''t''" "\<not> isWhiteSpace CHR ''u''" "\<not> isWhiteSpace CHR ''x''" "\<not> isWhiteSpace CHR ''y''"
  by (simp_all add: isWordChar_def isWhiteSpace_def)

lemma cls_disjoint [simp]:
  "\<forall>y. isWhiteSpace y \<longrightarrow> \<not> isWordChar y"
  "\<forall>y. isWordChar y \<longrightarrow> \<not> isWhiteSpace y"
  using white_not_word by blast+

lemma optKeyword_cases:
  assumes "optKeyword kw p"
  obtains "p = []" | w where "p = kw @ w" "w \<noteq> []" "spaces w"
  using assms by (rule optKeywordE) (auto simp: spaces_def)

lemma Lit_on_identifier:
  assumes "wordChars nm" and "nm \<noteq> []" and "\<not> isWordChar x"
  shows "run (Seq (Lit (x # l)) r) (c, nm @ t) = []" and "run (Lit (x # l)) (c, nm @ t) = []"
  using assms by (cases nm; auto simp: wordChars_def)+

lemma Lit_on_spaces:
  assumes "spaces w" and "w \<noteq> []" and "\<not> isWhiteSpace x"
  shows "run (Seq (Lit (x # l)) r) (c, w @ t) = []" and "run (Lit (x # l)) (c, w @ t) = []"
  using assms by (cases w; auto simp: spaces_def)+

lemmas shape_simps2 = pattern1_def pattern2_def pattern3_def pattern4_def optExport_def optAsync_def
  det isIdentifier_def keyword_on_identifier Lit_on_identifier Lit_on_spaces

lemma optAsyncArrow_cases:
  assumes "optAsyncArrow p"
  obtains "p = []" | w where "p = ''async'' @ w" "spaces w"
  using assms by (rule optAsyncArrowE)

lemma shape1_p1:
  assumes "optKeyword ''export'' ex" "optKeyword ''async'' asy" "w1 \<noteq> []" "spaces w1"
    "isIdentifier nm" "spaces w2"
  shows "\<exists>more. run pattern1 (None, ex @ asy @ ''function'' @ w1 @ nm @ w2 @ ''('' @ rest)
           = (Some nm, rest) # more"
  using assms(1)
proof (cases rule: optKeyword_cases)
  case 1
  note ex = this
  from assms(2) show ?thesis
  proof (cases rule: optKeyword_cases)
    case 1
    with ex assms(3-) show ?thesis
      by (simp add: shape_simps2 del: run.simps(2-6))
  next
    case (2 v)
    with ex assms(3-) show ?thesis
      by (simp add: shape_simps2 del: run.simps(2-6))
  qed
next
  case (2 w)
  note ex = this
  from assms(2) show ?thesis
  proof (cases rule: optKeyword_cases)
    case 1
    with ex assms(3-) show ?thesis
      by (simp add: shape_simps2 del: run.simps(2-6))
  next
    case (2 v)
    with ex assms(3-) show ?thesis
      by (simp add: shape_simps2 del: run.simps(2-6))
  qed
qed

lemma shape23_p1:
  assumes "optKeyword ''export'' ex"
  shows "run pattern1 (None, ex @ ''const'' @ t) = []"
  using assms(1)
proof (cases rule: optKeyword_cases)
  case 1
  with assms show ?thesis
    by (simp add: shape_simps2 del: run.simps(2-6))
next
  case (2 w)
  with assms show ?thesis
    by (simp add: shape_simps2 del: run.simps(2-6))
qed

lemma shape2_p2:
  assumes "optKeyword ''export'' ex" "w1 \<noteq> []" "spaces w1" "isIdentifier nm" "spaces w2"
    "spaces w3" "optAsyncArrow asy" "noRParen params" "spaces w4"
  shows "\<exists>more. run pattern2 (None, ex @ ''const'' @ w1 @ nm @ w2 @ ''='' @ w3 @ asy @ ''(''
             @ params @ '')'' @ w4 @ ''=>'' @ rest) = (Some nm, rest) # more"
  using assms(1)
proof (cases rule: optKeyword_cases)
  case 1
  note ex = this
  from assms(7) show ?thesis
  proof (cases rule: optAsyncArrow_cases)
    case 1
    with ex assms show ?thesis
      by (simp add: shape_simps2 del: run.simps(2-6))
  next
    case (2 v)
    with ex assms show ?thesis
      by (simp add: shape_simps2 del: run.simps(2-6))
  qed
next
  case (2 w)
  note ex = this
  from assms(7) show ?thesis
  proof (cases rule: optAsyncArrow_cases)
    case 1
    with ex assms show ?thesis
      by (simp add: shape_simps2 del: run.simps(2-6))
  next
    case (2 v)
    with ex assms show ?thesis
      by (simp add: shape_simps2 del: run.simps(2-6))
  qed
qed

lemma shape3_p2:
  assumes "optKeyword ''export'' ex" "w1 \<noteq> []" "spaces w1" "isIdentifier nm" "spaces w2" "spaces w3"
  shows "run pattern2 (None, ex @ ''const'' @ w1 @ nm @ w2 @ ''='' @ w3 @ ''function'' @ t) = []"
  using assms(1)
proof (cases rule: optKeyword_cases)
  case 1
  with assms show ?thesis
    by (simp add: shape_simps2 del: run.simps(2-6))
next
  case (2 w)
  with assms show ?thesis
    by (simp add: shape_simps2 del: run.simps(2-6))
qed

lemma shape3_p3:
  assumes "optKeyword ''export'' ex" "w1 \<noteq> []" "spaces w1" "isIdentifier nm" "spaces w2"
    "spaces w3" "spaces w4"
  shows "\<exists>more. run pattern3 (None, ex @ ''const'' @ w1 @ nm @ w2 @ ''='' @ w3 @ ''function'' @ w4
            @ ''('' @ rest) = (Some nm, rest) # more"
  using assms(1)
proof (cases rule: optKeyword_cases)
  case 1
  with assms show ?thesis
    by (simp add: shape_simps2 del: run.simps(2-6))
next
  case (2 w)
  with assms show ?thesis
    by (simp add: shape_simps2 del: run.simps(2-6))
qed

lemma shape4_p1:
  assumes "optKeyword ''export'' ex" "optKeyword ''async'' asy" "isIdentifier nm" "spaces w2"
  shows "run pattern1 (None, ex @ asy @ nm @ w2 @ ''('' @ t) = []"
  using assms(1)
proof (cases rule: optKeyword_cases)
  case 1
  note ex = this
  from assms(2) show ?thesis
  proof (cases rule: optKeyword_cases)
    case 1
    with ex assms(3-) show ?thesis
      by (simp add: shape_simps2 del: run.simps(2-6))
  next
    case (2 v)
    with ex assms(3-) show ?thesis
      by (simp add: shape_simps2 del: run.simps(2-6))
  qed
next
  case (2 w)
  note ex = this
  from assms(2) show ?thesis
  proof (cases rule: optKeyword_cases)
    case 1
    with ex assms(3-) show ?thesis
      by (simp add: shape_simps2 del: run.simps(2-6))
  next
    case (2 v)
    with ex assms(3-) show ?thesis
      by (simp add: shape_simps2 del: run.simps(2-6))
  qed
qed

lemma shape4_p2:
  assumes "optKeyword ''export'' ex" "optKeyword ''async'' asy" "isIdentifier nm" "spaces w2"
  shows "run pattern2 (None, ex @ asy @ nm @ w2 @ ''('' @ t) = []"
  using assms(1)
proof (cases rule: optKeyword_cases)
  case 1
  note ex = this
  from assms(2) show ?thesis
  proof (cases rule: optKeyword_cases)
    case 1
    with ex assms(3-) show ?thesis
      by (simp add: shape_simps2 del: run.simps(2-6))
  next
    case (2 v)
    with ex assms(3-) show ?thesis
      by (simp add: shape_simps2 del: run.simps(2-6))
  qed
next
  case (2 w)
  note ex = this
  from assms(2) show ?thesis
  proof (cases rule: optKeyword_cases)
    case 1
    with ex assms(3-) show ?thesis
      by (simp add: shape_simps2 del: run.simps(2-6))
  next
    case (2 v)
    with ex assms(3-) show ?thesis
      by (simp add: shape_simps2 del: run.simps(2-6))
  qed
qed

lemma shape4_p3:
  assumes "optKeyword ''export'' ex" "optKeyword ''async'' asy" "isIdentifier nm" "spaces w2"
  shows "run pattern3 (None, ex @ asy @ nm @ w2 @ ''('' @ t) = []"
  using assms(1)
proof (cases rule: optKeyword_cases)
  case 1
  note ex = this
  from assms(2) show ?thesis
  proof (cases rule: optKeyword_cases)
    case 1
    with ex assms(3-) show ?thesis
      by (simp add: shape_simps2 del: run.simps(2-6))
  next
    case (2 v)
    with ex assms(3-) show ?thesis
      by (simp add: shape_simps2 del: run.simps(2-6))
  qed
next
  case (2 w)
  note ex = this
  from assms(2) show ?thesis
  proof (cases rule: optKeyword_cases)
    case 1
    with ex assms(3-) show ?thesis
      by (simp add: shape_simps2 del: run.simps(2-6))
  next
    case (2 v)
    with ex assms(3-) show ?thesis
      by (simp add: shape_simps2 del: run.simps(2-6))
  qed
qed

lemma shape4_p4:
  assumes "optKeyword ''export'' ex" "optKeyword ''async'' asy" "isIdentifier nm" "spaces w2"
    "noRParen params" "spaces w3"
  shows "\<exists>more. run pattern4 (None, ex @ asy @ nm @ w2 @ ''('' @ params @ '')'' @ w3 @ ''{'' @ rest)
           = (Some nm, rest) # more"
  using assms(1)
proof (cases rule: optKeyword_cases)
  case 1
  note ex = this
  from assms(2) show ?thesis
  proof (cases rule: optKeyword_cases)
    case 1
    with ex assms(3-) show ?thesis
      by (simp add: shape_simps2 del: run.simps(2-6))
  next
    case (2 v)
    with ex assms(3-) show ?thesis
      by (simp add: shape_simps2 del: run.simps(2-6))
  qed
next
  case (2 w)
  note ex = this
  from assms(2) show ?thesis
  proof (cases rule: optKeyword_cases)
    case 1
    with ex assms(3-) show ?thesis
      by (simp add: shape_simps2 del: run.simps(2-6))
  next
    case (2 v)
    with ex assms(3-) show ?thesis
      by (simp add: shape_simps2 del: run.simps(2-6))
  qed
qed

subsection \<open>Function boundary detector: the claims\<close>

lemma indexOf_ge: "- 1 \<le> indexOf s p"
  by (induction s) (auto simp: Let_def)

lemma indexOf_not_prefix: "\<not> startsWith (x # xs) p \<Longrightarrow> indexOf (x # xs) p = - 1 \<or> 0 < indexOf (x # xs) p"
  using indexOf_ge [of xs p] by (auto simp: Let_def)

lemma word_not_slash: "isWordChar x \<Longrightarrow> x \<noteq> CHR ''/''"
  by (auto simp: isWordChar_def)

lemma trim_Cons:
  assumes "\<not> isWhiteSpace x"
  shows "\<exists>ys. trim (x # xs) = x # ys"
proof -
  have "\<exists>zs. dropWhile isWhiteSpace (rev xs @ [x]) = zs @ [x]"
    using assms by (auto simp: dropWhile_append)
  then obtain zs where "dropWhile isWhiteSpace (rev (x # xs)) = zs @ [x]"
    by auto
  with assms show ?thesis
    by (simp add: trim_def)
qed

lemma word_line_not_skipped:
  assumes "isWordChar x"
  shows "\<not> skipped (x # xs)"
proof -
  from assms have "\<not> isWhiteSpace x"
    using white_not_word by blast
  then obtain ys where "trim (x # xs) = x # ys"
    using trim_Cons by blast
  with word_not_slash [OF assms] show ?thesis
    by (simp add: skipped_def)
qed

lemma matchAnchored_Nil: "run p (None, text) = [] \<Longrightarrow> matchAnchored text p = None"
  by (simp add: matchAnchored_def)

lemma matchAnchored_Cons:
  "run p (None, text) = (cap, rest) # others
     \<Longrightarrow> matchAnchored text p = Some \<lparr>index = 0, group1 = cap\<rparr>"
  by (simp add: matchAnchored_def)

lemma firstAccepted_skip:
  "run p (None, text) = [] \<Longrightarrow> firstAccepted (p # ps) text = firstAccepted ps text"
  by (simp add: matchAnchored_Nil)

lemma firstAccepted_hit:
  assumes "run p (None, x # xs) = (Some n, rest) # others" and "isWordChar x"
  shows "firstAccepted (p # ps) (x # xs) = Some n"
proof -
  have "\<not> startsWith (x # xs) ''//''"
    using word_not_slash [OF assms(2)] by simp
  then have "indexOf (x # xs) ''//'' = - 1 \<or> 0 < indexOf (x # xs) ''//''"
    by (rule indexOf_not_prefix)
  with assms(1) show ?thesis
    by (auto simp: matchAnchored_Cons Let_def)
qed

lemma match_starts_with_word:
  assumes "run p (c, text) \<noteq> []" and "p \<in> set patterns"
  obtains x xs where "text = x # xs" and "isWordChar x"
proof (cases "text")
  case Nil
  with assms show ?thesis
    using run_patterns_Nil by blast
next
  case (Cons x xs)
  with assms have "isWordChar x"
    using run_patterns_nonword by blast
  with Cons show ?thesis
    by (rule that)
qed

lemma declares_found:
  assumes "declares text nm"
  shows "findFunctionDefinition text = Some nm \<and> (\<exists>x xs. text = x # xs \<and> isWordChar x)"
  using assms
proof (cases rule: declares.cases)
  case (namedFunction ex asy w1 w2 rest)
  then obtain others where r: "run pattern1 (None, text) = (Some nm, rest) # others"
    using shape1_p1 by blast
  then obtain x xs where x: "text = x # xs" "isWordChar x"
    using match_starts_with_word [of pattern1 None "text"] by (auto simp: patterns_def)
  with r show ?thesis
    by (simp add: findFunctionDefinition_def patterns_def firstAccepted_hit del: firstAccepted.simps)
next
  case (constArrow ex w1 w2 w3 asy params w4 rest)
  then have r1: "run pattern1 (None, text) = []"
    using shape23_p1 by simp
  from constArrow obtain others where r: "run pattern2 (None, text) = (Some nm, rest) # others"
    using shape2_p2 by blast
  then obtain x xs where x: "text = x # xs" "isWordChar x"
    using match_starts_with_word [of pattern2 None "text"] by (auto simp: patterns_def)
  with r r1 show ?thesis
    by (simp add: findFunctionDefinition_def patterns_def firstAccepted_skip firstAccepted_hit del: firstAccepted.simps)
next
  case (constFunction ex w1 w2 w3 w4 rest)
  then have r1: "run pattern1 (None, text) = []"
    using shape23_p1 by simp
  from constFunction have r2: "run pattern2 (None, text) = []"
    using shape3_p2 by simp
  from constFunction obtain others where r: "run pattern3 (None, text) = (Some nm, rest) # others"
    using shape3_p3 by blast
  then obtain x xs where x: "text = x # xs" "isWordChar x"
    using match_starts_with_word [of pattern3 None "text"] by (auto simp: patterns_def)
  with r r1 r2 show ?thesis
    by (simp add: findFunctionDefinition_def patterns_def firstAccepted_skip firstAccepted_hit del: firstAccepted.simps)
next
  case (methodShorthand ex asy w2 params w3 rest)
  then have r1: "run pattern1 (None, text) = []"
    using shape4_p1 by simp
  from methodShorthand have r2: "run pattern2 (None, text) = []"
    using shape4_p2 by simp
  from methodShorthand have r3: "run pattern3 (None, text) = []"
    using shape4_p3 by simp
  from methodShorthand obtain others where r: "run pattern4 (None, text) = (Some nm, rest) # others"
    using shape4_p4 by blast
  then obtain x xs where x: "text = x # xs" "isWordChar x"
    using match_starts_with_word [of pattern4 None "text"] by (auto simp: patterns_def)
  with r r1 r2 r3 show ?thesis
    by (simp add: findFunctionDefinition_def patterns_def firstAccepted_skip firstAccepted_hit del: firstAccepted.simps)
qed

lemma firstAccepted_origin:
  assumes "firstAccepted ps t = Some n"
  shows "\<exists>p \<in> set ps. \<exists>m. matchAnchored t p = Some m
           \<and> n = (case group1 m of Some g \<Rightarrow> g | None \<Rightarrow> [])
           \<and> (indexOf t ''//'' = - 1 \<or> index m < indexOf t ''//'')"
  using assms
proof (induction ps)
  case Nil
  then show ?case by simp
next
  case (Cons p ps)
  show ?case
  proof (cases "matchAnchored t p")
    case None
    with Cons show ?thesis by auto
  next
    case (Some m)
    show ?thesis
    proof (cases "indexOf t ''//'' = - 1 \<or> index m < indexOf t ''//''")
      case True
      with Some Cons.prems have "n = (case group1 m of Some g \<Rightarrow> g | None \<Rightarrow> [])"
        by (auto simp: Let_def)
      with Some True show ?thesis
        by auto
    next
      case False
      with Some Cons.prems have "firstAccepted ps t = Some n"
        by (auto simp: Let_def)
      with Cons.IH show ?thesis
        by auto
    qed
  qed
qed

lemma detectFunctions_eq:
  "detectFunctions st d = Inr (st', out) \<longleftrightarrow>
     (\<exists>found edits. detectLoop d 0 ([], []) = Inr (found, edits)
        \<and> st' = st\<lparr>functionRanges := found\<rparr>
        \<and> out = (if edits \<noteq> [] then [ApplyEdit edits] else []))"
  by (auto simp: detectFunctions_def andThen_def split: sum.splits)

lemma detectFunctions_returns:
  obtains found edits where "detectLoop d 0 ([], []) = Inr (found, edits)"
    and "detectFunctions st d =
           Inr (st\<lparr>functionRanges := found\<rparr>, if edits \<noteq> [] then [ApplyEdit edits] else [])"
proof -
  obtain acc' where "detectLoop d 0 ([], []) = Inr acc'"
    using detectLoop_returns by blast
  then show ?thesis
    by (cases acc') (auto simp: detectFunctions_def andThen_def intro: that)
qed

lemma run_captures:
  "(c', s') \<in> set (run r (c, s)) \<Longrightarrow> captures r \<or> c \<noteq> None \<Longrightarrow> c' \<noteq> None"
proof (induction r arbitrary: c s c' s')
  case (Seq a b)
  from Seq.prems(1) obtain c1 s1 where a: "(c1, s1) \<in> set (run a (c, s))"
    and b: "(c', s') \<in> set (run b (c1, s1))"
    by auto
  show ?case
  proof (cases "captures a \<or> c \<noteq> None")
    case True
    with a have "c1 \<noteq> None"
      using Seq.IH(1) by blast
    with b show ?thesis
      using Seq.IH(2) by blast
  next
    case False
    with Seq.prems(2) have "captures b"
      by simp
    with b show ?thesis
      using Seq.IH(2) by blast
  qed
next
  case (Opt r)
  then show ?case by auto
qed auto

lemma patterns_capture:
  assumes "p \<in> set patterns" and "matchAnchored t p = Some m"
  shows "group1 m \<noteq> None \<and> index m = 0"
proof -
  from assms(1) have cap: "captures p"
    by (auto simp: patterns_def pattern1_def pattern2_def pattern3_def pattern4_def)
  from assms(2) obtain c rest others where r: "run p (None, t) = (c, rest) # others"
    and m: "m = \<lparr>index = 0, group1 = c\<rparr>"
    by (auto simp: matchAnchored_def split: list.splits)
  from r have "(c, rest) \<in> set (run p (None, t))"
    by simp
  with cap have "c \<noteq> None"
    using run_captures by blast
  with m show ?thesis
    by simp
qed

lemma accepted_origin:
  assumes "findFunctionDefinition t = Some n"
  shows "\<exists>p \<in> set patterns. \<exists>m. matchAnchored t p = Some m \<and> group1 m = Some n \<and> index m = 0
           \<and> (indexOf t ''//'' = - 1 \<or> index m < indexOf t ''//'')"
proof -
  from assms obtain p m where p: "p \<in> set patterns" and m: "matchAnchored t p = Some m"
    and n: "n = (case group1 m of Some g \<Rightarrow> g | None \<Rightarrow> [])"
    and c: "indexOf t ''//'' = - 1 \<or> index m < indexOf t ''//''"
    unfolding findFunctionDefinition_def using firstAccepted_origin by blast
  from patterns_capture [OF p m] n have "group1 m = Some n" "index m = 0"
    by auto
  with p m c show ?thesis
    by blast
qed

lemma in_range_of_line:
  assumes "detectFunctions st d = Inr (st', out)" and "(n, r) \<in> set (functionRanges st')"
  shows "\<exists>j < length d. \<not> skipped (d ! j) \<and> findFunctionDefinition (d ! j) = Some n
           \<and> r = lineRange j (d ! j)"
proof -
  from assms(1) obtain found edits where l: "detectLoop d 0 ([], []) = Inr (found, edits)"
    and st': "st' = st\<lparr>functionRanges := found\<rparr>"
    by (auto simp: detectFunctions_eq)
  from assms(2) st' have "(n, r) \<in> set (fst (found, edits))"
    by simp
  from detectLoop_sound [OF l this] show ?thesis
    by auto
qed

lemma no_match_let: "\<forall>p \<in> set patterns. matchAnchored ''let x = 1;'' p = None"
  by code_simp

text \<open>
  C5. \<^verbatim>\<open>detectFunctions\<close> never throws: it returns for every document. Every range it
  records is the range of one line of the document, \<open>0 \<le> startLine = endLine < lineCount\<close>.
  When no line matches any of the four patterns, the map it leaves is empty.
\<close>

theorem detectFunctions_safe:
  "\<exists>st' out. detectFunctions st d = Inr (st', out)
     \<and> (\<forall>(n, r) \<in> set (functionRanges st').
           0 \<le> start_line r \<and> start_line r = end_line r \<and> end_line r < int (length d))
     \<and> ((\<forall>i < length d. \<forall>p \<in> set patterns. matchAnchored (d ! i) p = None)
           \<longrightarrow> functionRanges st' = [])"
proof -
  obtain st' out where res: "detectFunctions st d = Inr (st', out)"
    using detectFunctions_returns [of d st] by metis
  have bounds: "0 \<le> start_line r \<and> start_line r = end_line r \<and> end_line r < int (length d)"
    if "(n, r) \<in> set (functionRanges st')" for n r
    using in_range_of_line [OF res that] by (auto simp: lineRange_def)
  have none: "functionRanges st' = []"
    if nomatch: "\<forall>i < length d. \<forall>p \<in> set patterns. matchAnchored (d ! i) p = None"
  proof (rule ccontr)
    assume "functionRanges st' \<noteq> []"
    then obtain n r where "(n, r) \<in> set (functionRanges st')"
      by (cases "functionRanges st'") auto
    from in_range_of_line [OF res this] obtain j where "j < length d"
      and "findFunctionDefinition (d ! j) = Some n"
      by blast
    with nomatch show False
      using accepted_origin [of "d ! j" n] by auto
  qed
  from res bounds none show ?thesis
    by blast
qed

lemma function_f_detected:
  "case detectFunctions initialState [''function f() {}''] of
     Inl e \<Rightarrow> False
   | Inr (st', out) \<Rightarrow> map_of (functionRanges st') ''f'' \<noteq> None"
  by code_simp

theorem detectFunctions_safe_witness:
  "(\<exists>st' out. detectFunctions initialState [''let x = 1;''] = Inr (st', out)
      \<and> functionRanges st' = [])
 \<and> (\<exists>st' out. detectFunctions initialState [''function f() {}''] = Inr (st', out)
      \<and> map_of (functionRanges st') ''f'' \<noteq> None
      \<and> (\<forall>(n, r) \<in> set (functionRanges st').
            0 \<le> start_line r \<and> start_line r = end_line r \<and> end_line r < 1))"
proof
  show "\<exists>st' out. detectFunctions initialState [''let x = 1;''] = Inr (st', out)
      \<and> functionRanges st' = []"
    using detectFunctions_safe [of initialState "[''let x = 1;'']"] no_match_let
    by auto
next
  show "\<exists>st' out. detectFunctions initialState [''function f() {}''] = Inr (st', out)
      \<and> map_of (functionRanges st') ''f'' \<noteq> None
      \<and> (\<forall>(n, r) \<in> set (functionRanges st').
            0 \<le> start_line r \<and> start_line r = end_line r \<and> end_line r < 1)"
    using detectFunctions_safe [of initialState "[''function f() {}'']"] function_f_detected
    by auto
qed

text \<open>
  C10. The patterns are matched at offset 0 of the raw line. For a line that begins with a
  white-space character no pattern matches, \<^verbatim>\<open>findFunctionDefinition\<close> returns
  \<^verbatim>\<open>null\<close>, and \<^verbatim>\<open>detectFunctions\<close> records no range on that line. The witness
  is an indented line whose trimmed text is a declaration that the detector accepts.
\<close>

theorem indented_line_not_detected:
  assumes "i < length d" and "d ! i = c # cs" and "isWhiteSpace c"
  shows "findFunctionDefinition (d ! i) = None
       \<and> (\<forall>p \<in> set patterns. matchAnchored (d ! i) p = None)
       \<and> (\<exists>st' out. detectFunctions st d = Inr (st', out)
            \<and> (\<forall>(n, r) \<in> set (functionRanges st'). start_line r \<noteq> int i))"
proof -
  from assms(3) have nw: "\<not> isWordChar c"
    by (rule white_not_word)
  with assms(2) have none: "findFunctionDefinition (d ! i) = None"
    by (simp add: findFunctionDefinition_nonword)
  from nw assms(2) have pats: "\<forall>p \<in> set patterns. matchAnchored (d ! i) p = None"
    by (simp add: matchAnchored_def run_patterns_nonword)
  obtain st' out where res: "detectFunctions st d = Inr (st', out)"
    using detectFunctions_returns [of d st] by metis
  have "start_line r \<noteq> int i" if "(n, r) \<in> set (functionRanges st')" for n r
  proof
    assume eq: "start_line r = int i"
    from in_range_of_line [OF res that] obtain j where
      "findFunctionDefinition (d ! j) = Some n" and "r = lineRange j (d ! j)"
      by blast
    with eq none show False
      by (simp add: lineRange_def)
  qed
  with none pats res show ?thesis
    by blast
qed

theorem indented_line_not_detected_witness:
  "findFunctionDefinition (trim ''  function foo() {}'') = Some ''foo''
 \<and> findFunctionDefinition ''  function foo() {}'' = None
 \<and> (\<exists>st' out. detectFunctions initialState [''  function foo() {}''] = Inr (st', out)
      \<and> (\<forall>(n, r) \<in> set (functionRanges st'). start_line r \<noteq> 0))"
proof -
  have "findFunctionDefinition (trim ''  function foo() {}'') = Some ''foo''"
    by code_simp
  moreover have "isWhiteSpace (CHR '' '')"
    by (simp add: isWhiteSpace_def)
  ultimately show ?thesis
    using indented_line_not_detected
      [of 0 "[''  function foo() {}'']" "CHR '' ''" "'' function foo() {}''" initialState]
    by simp
qed

lemma indented_line_detection: "detectFunctions initialState [''  function foo() {}''] = Inr (initialState, [])"
  by code_simp

lemma indented_line_trim: "trim ''  function foo() {}'' = ''function foo() {}''"
  by code_simp

lemma declares_foo: "declares ''function foo() {}'' ''foo''"
  using declares.namedFunction [of "[]" "[]" "'' ''" "''foo''" "[]" "'') {}''"]
  by (simp add: optKeyword_def spaces_def isIdentifier_def wordChars_def isWhiteSpace_def isWordChar_def)

lemma declares_mul: "declares ''const mul = (a,b) => a*b;'' ''mul''"
  using declares.constArrow [of "[]" "'' ''" "''mul''" "'' ''" "'' ''" "[]" "''a,b''" "'' ''" "'' a*b;''"]
  by (simp add: optKeyword_def optAsyncArrow_def noRParen_def spaces_def isIdentifier_def wordChars_def isWhiteSpace_def isWordChar_def)

text \<open>
  C4, as stated: a document that contains a well-formed declaration gets an entry under the
  declared name. The declaration below is well formed once trimmed, but it is indented, and
  the detector records nothing.
\<close>

theorem indented_declaration_missed:
  "declares (trim ''  function foo() {}'') ''foo''
 \<and> detectFunctions initialState [''  function foo() {}''] = Inr (initialState, [])"
  using indented_line_detection indented_line_trim declares_foo by simp

text \<open>
  C4, amended. A line that starts in column 0 with an instance of one of the four shapes
  (\<open>declares\<close>: the name made of word characters, the parameter list of the arrow and
  method shapes free of a closing parenthesis) is accepted under the declared name, and the
  map that \<^verbatim>\<open>detectFunctions\<close> leaves has an entry under that name. Every accepted name
  is group 1 of a match at offset 0 that lies before the first \<^verbatim>\<open>//\<close> of the line, so
  nothing that begins after a \<^verbatim>\<open>//\<close> is recorded.
\<close>

theorem declared_function_detected:
  assumes "i < length d" and "declares (d ! i) nm"
  shows "findFunctionDefinition (d ! i) = Some nm
       \<and> (\<exists>st' out. detectFunctions st d = Inr (st', out) \<and> map_of (functionRanges st') nm \<noteq> None)
       \<and> (\<forall>t n. findFunctionDefinition t = Some n \<longrightarrow>
             (\<exists>p \<in> set patterns. \<exists>m. matchAnchored t p = Some m \<and> group1 m = Some n
                \<and> index m = 0 \<and> (indexOf t ''//'' = - 1 \<or> index m < indexOf t ''//'')))"
proof -
  from declares_found [OF assms(2)] obtain x xs where
    found: "findFunctionDefinition (d ! i) = Some nm" and x: "d ! i = x # xs" "isWordChar x"
    by blast
  from x have ns: "\<not> skipped (d ! i)"
    by (simp add: word_line_not_skipped)
  obtain fs edits where l: "detectLoop d 0 ([], []) = Inr (fs, edits)"
    and res: "detectFunctions st d =
           Inr (st\<lparr>functionRanges := fs\<rparr>, if edits \<noteq> [] then [ApplyEdit edits] else [])"
    by (rule detectFunctions_returns)
  have "nm \<in> fst ` set (fst (fs, edits))"
    using assms(1) ns found by (intro detectLoop_complete [OF l]) auto
  then have "map_of fs nm \<noteq> None"
    by (simp add: map_of_eq_None_iff)
  with res found accepted_origin show ?thesis
    by auto
qed

theorem declared_function_detected_witness:
  "findFunctionDefinition ''const mul = (a,b) => a*b;'' = Some ''mul''
 \<and> (\<exists>st' out. detectFunctions initialState
        [''function add(a,b){return a+b;}'', ''const mul = (a,b) => a*b;''] = Inr (st', out)
      \<and> map_of (functionRanges st') ''mul'' \<noteq> None)"
  using declared_function_detected
    [of 1 "[''function add(a,b){return a+b;}'', ''const mul = (a,b) => a*b;'']" "''mul''" initialState]
    declares_mul
  by simp

subsection \<open>Function body extractor\<close>

lemma slice_Suc:
  assumes "s \<le> k" and "k < length d"
  shows "slice d s (Suc k) = slice d s k @ [d ! k]"
proof -
  from assms have "k - s < length (drop s d)"
    by simp
  then have "take (Suc (k - s)) (drop s d) = take (k - s) (drop s d) @ [drop s d ! (k - s)]"
    by (rule take_Suc_conv_app_nth)
  with assms show ?thesis
    by (simp add: slice_def Suc_diff_le)
qed

lemma braceScan_Suc:
  assumes "s \<le> k" and "k < length d"
  shows "braceScan d s (Suc k) = fold braceStep (d ! k) (braceScan d s k)"
  using assms by (simp add: braceScan_def slice_Suc)

lemma extractLoop_spec:
  assumes "s \<le> k" and "k \<le> length d"
  shows "extractLoop d k (braceScan d s k) (slice d s k) =
     Inr (map_option (\<lambda>j. joinLines (slice d s (Suc j))) (find (balancedAfter d s) [k ..< length d]))"
  using assms
proof (induction "length d - k" arbitrary: k)
  case 0
  then have "k = length d"
    by simp
  then show ?case
    by (subst extractLoop.simps) simp
next
  case (Suc n)
  then have k: "k < length d"
    by simp
  from Suc.prems k have scan: "braceScan d s (Suc k) = fold braceStep (d ! k) (braceScan d s k)"
    by (simp add: braceScan_Suc)
  from Suc.prems k have sl: "slice d s (Suc k) = slice d s k @ [d ! k]"
    by (simp add: slice_Suc)
  have upt: "[k ..< length d] = k # [Suc k ..< length d]"
    using k by (simp add: upt_conv_Cons)
  show ?case
  proof (cases "balancedAfter d s k")
    case True
    with k scan sl upt show ?thesis
      by (subst extractLoop.simps) (simp add: lineAt_nat balancedAfter_def Let_def)
  next
    case False
    from Suc.hyps(2) k have "n = length d - Suc k"
      by simp
    moreover from Suc.prems k have "s \<le> Suc k" "Suc k \<le> length d"
      by simp_all
    ultimately have "extractLoop d (Suc k) (braceScan d s (Suc k)) (slice d s (Suc k)) =
        Inr (map_option (\<lambda>j. joinLines (slice d s (Suc j)))
               (find (balancedAfter d s) [Suc k ..< length d]))"
      by (rule Suc.hyps(1))
    with False k scan sl upt show ?thesis
      by (subst extractLoop.simps) (auto simp add: lineAt_nat balancedAfter_def Let_def)
  qed
qed

text \<open>
  C3, as stated: the text runs through the first line at which the counter returns to zero
  after an opening brace. On the two lines \<^verbatim>\<open>f(){}{\<close> and \<^verbatim>\<open>}\<close> the counter returns to
  zero inside the first line, yet the extractor goes on and returns both lines.
\<close>

theorem extract_stops_at_line_end:
  "extractFunctionCode (Some [''f(){}{'', ''}'']) 0 = Inr (Some (''f(){}{'' @ [CHR 0x0A] @ ''}''))
 \<and> extract_stated [''f(){}{'', ''}''] 0 = Some ''f(){}{''"
  by code_simp

text \<open>
  C3, amended. Without an active editor the extractor returns \<^verbatim>\<open>null\<close>. Otherwise it
  never throws, and it returns the newline-joined text from the start line through the first
  line after whose last character an opening brace has been seen and the counter is zero;
  when the document has no such line from the start line on, it returns \<^verbatim>\<open>null\<close>.
\<close>

theorem extractFunctionCode_end_of_line:
  "extractFunctionCode None s = Inr None
 \<and> extractFunctionCode (Some d) s = Inr (extract_end_of_line d s)"
proof (cases "s \<le> length d")
  case True
  have "braceScan d s s = (False, 0)" "slice d s s = []"
    by (simp_all add: braceScan_def slice_def)
  with extractLoop_spec [of s s d] True show ?thesis
    by (simp add: extractFunctionCode_def extract_end_of_line_def)
next
  case False
  then have "extractLoop d s (False, 0) [] = Inr None"
    by (subst extractLoop.simps) simp
  with False show ?thesis
    by (simp add: extractFunctionCode_def extract_end_of_line_def)
qed

subsection \<open>Complexity mapper and highlight projector\<close>

text \<open>
  C7. For a document whose text is empty the mapper returns \<^verbatim>\<open>null\<close> and shows exactly
  one error message, whatever the metrics engine would do; the engine is not called and
  nothing is thrown.
\<close>

theorem analyzeComplexity_empty_text:
  assumes "getText d = []"
  shows "analyzeComplexity engine (Some d) = (None, [ShowErrorMessage ''The file is empty or invalid.''])"
  using assms by (simp add: analyzeComplexity_def)

theorem analyzeComplexity_empty_text_witness:
  "analyzeComplexity (\<lambda>src. EngineThrows) (Some ['''']) =
     (None, [ShowErrorMessage ''The file is empty or invalid.''])"
  using analyzeComplexity_empty_text [of "['''']" "\<lambda>src. EngineThrows"]
  by (simp add: getText_def)

lemma highlight_empty_metrics_clears:
  assumes "activeEditor st = Some ed" and "10 \<le> length (document ed)"
    and "metrics = None \<or> metrics = Some []"
  shows "highlightComplexFunctions st metrics = (clearHighlights st ed, [])"
  using assms by (auto simp: highlightComplexFunctions_def)

lemma highlight_short_returns:
  assumes "activeEditor st = Some ed" and "length (document ed) < 10"
  shows "highlightComplexFunctions st metrics = (st, [])"
  using assms by (simp add: highlightComplexFunctions_def)

text \<open>
  C2 at a failing input: for a three-line document that carries a complexity and a refactor
  decoration, the projector returns the state unchanged, for an empty metric list and for a
  non-empty one alike. The first line-count test returns before the guard that clears.
\<close>

theorem short_document_not_cleared:
  "highlightComplexFunctions (initialState\<lparr>activeEditor := Some shortEditor\<rparr>) (Some []) =
     (initialState\<lparr>activeEditor := Some shortEditor\<rparr>, [])
 \<and> highlightComplexFunctions (initialState\<lparr>activeEditor := Some shortEditor\<rparr>) (Some [fooMetric]) =
     (initialState\<lparr>activeEditor := Some shortEditor\<rparr>, [])
 \<and> complexityDecorations shortEditor \<noteq> []
 \<and> refactorDecorations shortEditor \<noteq> []"
  by (simp add: highlightComplexFunctions_def initialState_def shortEditor_def)

lemma highlightMetric_low:
  assumes "complexity m \<le> 9"
  shows "highlightMetric d m (cds, rds, cr, out) = (cds, rds, cr, out @ [ConsoleWarn])
       \<or> highlightMetric d m (cds, rds, cr, out) = (cds, rds, cr, out @ [ConsoleError])
       \<or> (\<exists>r. highlightMetric d m (cds, rds, cr, out) =
            (cds @ [\<lparr>deco_range = r,
                      hoverMessage = OptimalComplexity (complexity m) (metric_name m),
                      renderOptions = OptimalLabel\<rparr>], rds, cr, out))"
  using assms
  by (auto simp: highlightMetric_def Let_def split: option.splits sum.splits)

lemma highlightMetric_ranges:
  assumes "highlightMetric d m (cds, rds, cr, out) = (cds', rds', cr', out')"
    and "(n, r) \<in> set cr'"
  shows "(n, r) \<in> set cr \<or> (metric_name m = n \<and> 9 < complexity m)"
  using assms set_update_subset [of "metric_name m" _ cr]
  by (auto simp: highlightMetric_def Let_def split: option.splits sum.splits if_splits)

lemma fold_highlightMetric_ranges:
  assumes "fold (highlightMetric d) ms acc = acc'" and "(n, r) \<in> set (fst (snd (snd acc')))"
  shows "(n, r) \<in> set (fst (snd (snd acc))) \<or> (\<exists>m \<in> set ms. metric_name m = n \<and> 9 < complexity m)"
  using assms
proof (induction ms arbitrary: acc)
  case Nil
  then show ?case by simp
next
  case (Cons m ms)
  obtain cds rds cr out where acc: "acc = (cds, rds, cr, out)"
    by (cases acc) auto
  obtain cds1 rds1 cr1 out1 where step: "highlightMetric d m acc = (cds1, rds1, cr1, out1)"
    by (cases "highlightMetric d m acc") auto
  from Cons.prems(1) have "fold (highlightMetric d) ms (highlightMetric d m acc) = acc'"
    by simp
  from Cons.IH [OF this Cons.prems(2)] step
  consider "(n, r) \<in> set cr1" | "\<exists>m \<in> set ms. metric_name m = n \<and> 9 < complexity m"
    by auto
  then show ?case
  proof cases
    case 1
    with step acc highlightMetric_ranges [of d m cds rds cr out cds1 rds1 cr1 out1 n r]
    show ?thesis by auto
  next
    case 2
    then show ?thesis by auto
  qed
qed

text \<open>
  C8. On a document of at least ten lines the metric \<open>foo\<close> of scenario B (complexity 12,
  lines 3 to 10) gets the high-complexity decoration and a gutter icon, and its zero-based
  range, lines 2 to 9, is stored in \<^verbatim>\<open>complexityRanges\<close> under \<open>foo\<close>. A name is stored
  only for a metric whose complexity exceeds 9; a metric with complexity at most 9 leaves
  the map as it is and adds nothing but an optimal-style decoration.
\<close>

theorem highlight_scenario_B:
  assumes "activeEditor st = Some ed" and "10 \<le> length (document ed)"
  shows "highlightComplexFunctions st (Some [fooMetric]) =
           (st\<lparr>complexityRanges :=
                 [(''foo'', \<lparr>start_line = 2, start_character = 0, end_line = 9,
                           end_character = int (length (trim (document ed ! 9)))\<rparr>)],
               activeEditor :=
                 Some (ed\<lparr>complexityDecorations :=
                            [\<lparr>deco_range =
                                \<lparr>start_line = 2, start_character = 0, end_line = 9,
                                 end_character = int (length (trim (document ed ! 9)))\<rparr>,
                              hoverMessage = HighComplexity 12 ''foo'',
                              renderOptions = HighLabel\<rparr>],
                          refactorDecorations :=
                            [\<lparr>deco_range =
                                \<lparr>start_line = 2, start_character = 0, end_line = 2,
                                 end_character = 0\<rparr>,
                              hoverMessage = RefactorHint ''foo'',
                              renderOptions = GutterIcon\<rparr>]\<rparr>)\<rparr>,
            [])
       \<and> (\<forall>ms st' out n r. highlightComplexFunctions st (Some ms) = (st', out) \<longrightarrow> ms \<noteq> [] \<longrightarrow>
              map_of (complexityRanges st') n = Some r \<longrightarrow>
              (\<exists>m \<in> set ms. metric_name m = n \<and> 9 < complexity m))
       \<and> (\<forall>(m::Metric) cds rds cr out. complexity m \<le> 9 \<longrightarrow>
              fst (snd (snd (highlightMetric (document ed) m (cds, rds, cr, out)))) = cr
            \<and> (\<forall>x \<in> set (fst (highlightMetric (document ed) m (cds, rds, cr, out))) - set cds.
                  renderOptions x = OptimalLabel))"
proof (intro conjI allI impI)
  show "highlightComplexFunctions st (Some [fooMetric]) =
           (st\<lparr>complexityRanges :=
                 [(''foo'', \<lparr>start_line = 2, start_character = 0, end_line = 9,
                           end_character = int (length (trim (document ed ! 9)))\<rparr>)],
               activeEditor :=
                 Some (ed\<lparr>complexityDecorations :=
                            [\<lparr>deco_range =
                                \<lparr>start_line = 2, start_character = 0, end_line = 9,
                                 end_character = int (length (trim (document ed ! 9)))\<rparr>,
                              hoverMessage = HighComplexity 12 ''foo'',
                              renderOptions = HighLabel\<rparr>],
                          refactorDecorations :=
                            [\<lparr>deco_range =
                                \<lparr>start_line = 2, start_character = 0, end_line = 2,
                                 end_character = 0\<rparr>,
                              hoverMessage = RefactorHint ''foo'',
                              renderOptions = GutterIcon\<rparr>]\<rparr>)\<rparr>,
            [])"
    using assms
    by (simp add: highlightComplexFunctions_def highlightMetric_def fooMetric_def lineAt_def
        newRange_def andThen_def)
next
  fix ms st' out n r
  assume res: "highlightComplexFunctions st (Some ms) = (st', out)" and ne: "ms \<noteq> []"
    and look: "map_of (complexityRanges st') n = Some r"
  obtain cds rds cr out' where f: "fold (highlightMetric (document ed)) ms ([], [], [], []) = (cds, rds, cr, out')"
    by (cases "fold (highlightMetric (document ed)) ms ([], [], [], [])") auto
  with res ne assms have "complexityRanges st' = cr"
    by (auto simp: highlightComplexFunctions_def)
  with look have "(n, r) \<in> set cr"
    by (auto dest: map_of_SomeD)
  with fold_highlightMetric_ranges [OF f, of n r]
  show "\<exists>m \<in> set ms. metric_name m = n \<and> 9 < complexity m"
    by simp
next
  fix m :: Metric and cds rds cr out
  assume "complexity m \<le> 9"
  from highlightMetric_low [OF this, of "document ed" cds rds cr out]
  show "fst (snd (snd (highlightMetric (document ed) m (cds, rds, cr, out)))) = cr"
    by auto
next
  fix m :: Metric and cds rds cr out
  assume "complexity m \<le> 9"
  from highlightMetric_low [OF this, of "document ed" cds rds cr out]
  show "\<forall>x \<in> set (fst (highlightMetric (document ed) m (cds, rds, cr, out))) - set cds.
          renderOptions x = OptimalLabel"
    by auto
qed

theorem highlight_scenario_B_witness:
  "map_of (complexityRanges (fst (highlightComplexFunctions
       (initialState\<lparr>activeEditor := Some longEditor\<rparr>) (Some [fooMetric])))) ''foo''
     = Some \<lparr>start_line = 2, start_character = 0, end_line = 9, end_character = 1\<rparr>"
proof -
  have "trim (document longEditor ! 9) = ''}''"
    by code_simp
  then show ?thesis
    using highlight_scenario_B [of "initialState\<lparr>activeEditor := Some longEditor\<rparr>" longEditor]
    by (simp add: longEditor_def)
qed

subsection \<open>Selection handler\<close>

lemma sameSession_refl: "sameSession st st"
  by (simp add: sameSession_def split: option.splits)

lemma sameSession_trans: "sameSession a b \<Longrightarrow> sameSession b c \<Longrightarrow> sameSession a c"
  by (auto simp: sameSession_def split: option.splits)

lemma highlight_sameSession:
  assumes "highlightComplexFunctions st ms = (st', out)"
  shows "sameSession st st' \<and> functionRanges st' = functionRanges st"
  using assms
  by (auto simp: highlightComplexFunctions_def sameSession_def clearHighlights_def
      split: option.splits if_splits prod.splits)

lemma analysis_sameSession:
  assumes "(let (metrics, outA) = analyzeComplexity engine doc;
                (stH, outH) = highlightComplexFunctions st metrics
            in (stH, outA @ outH)) = (st', out)"
  shows "sameSession st st' \<and> functionRanges st' = functionRanges st"
proof -
  obtain metrics outA where a: "analyzeComplexity engine doc = (metrics, outA)"
    by (cases "analyzeComplexity engine doc") auto
  obtain stH outH where h: "highlightComplexFunctions st metrics = (stH, outH)"
    by (cases "highlightComplexFunctions st metrics") auto
  from assms a h have "st' = stH"
    by simp
  with highlight_sameSession [OF h] show ?thesis
    by simp
qed

lemma detectFunctions_sameSession:
  assumes "detectFunctions st d = Inr (st', out)"
  shows "sameSession st st'"
  using assms by (auto simp: detectFunctions_eq sameSession_def split: option.splits)

lemma updateDecorations_sameSession:
  assumes "updateDecorations engine st = Inr (st1, out1)"
  shows "sameSession st st1"
proof (cases "activeEditor st")
  case None
  with assms show ?thesis
    by (simp add: updateDecorations_def sameSession_refl)
next
  case (Some ed)
  show ?thesis
  proof (cases "isValidSourceFile ed")
    case False
    with Some assms show ?thesis
      by (auto simp: updateDecorations_def sameSession_def)
  next
    case True
    define pre where "pre =
      (if length (document ed) > 10
       then (let (metrics, outA) = analyzeComplexity engine (Some (document ed));
                 (stH, outH) = highlightComplexFunctions st metrics
             in (stH, outA @ outH))
       else (st\<lparr>activeEditor := Some (ed\<lparr>complexityDecorations := []\<rparr>)\<rparr>, []))"
    obtain stA outA where pre: "pre = (stA, outA)"
      by (cases pre) auto
    have sA: "sameSession st stA"
    proof (cases "length (document ed) > 10")
      case True
      with pre show ?thesis
        unfolding pre_def using analysis_sameSession by auto
    next
      case False
      with pre Some show ?thesis
        unfolding pre_def by (auto simp: sameSession_def)
    qed
    note pre' = pre [unfolded pre_def]
    from assms Some True pre' obtain st2 out2 decorations where
      d: "detectFunctions stA (document ed) = Inr (st2, out2)"
      and c: "createDecorations (functionRanges st2) = Inr decorations"
      and st1: "st1 = st2\<lparr>activeEditor :=
                 map_option (\<lambda>ed2. ed2\<lparr>testDecorations := decorations\<rparr>) (activeEditor st2)\<rparr>"
      unfolding updateDecorations_def
      by (auto simp: andThen_def split: sum.splits prod.splits)
    from st1 have "sameSession st2 st1"
      by (auto simp: sameSession_def split: option.splits)
    with sA detectFunctions_sameSession [OF d] show ?thesis
      using sameSession_trans by blast
  qed
qed

lemma interpretClick_batch:
  assumes "lineAt (document ed) (line (active sel)) = Inr t"
    and "trim t \<noteq> []"
    and "\<not> isEditingFunction st"
    and "TYPING_COOLDOWN \<le> now - lastTypingTime st"
    and "line (active sel) = int (length (document ed)) - 1"
    and "2 \<le> length (functionRanges st)"
    and "CLICK_DEBOUNCE_TIME < now - lastClickTime st"
    and "int (length (trim t)) - 2 \<le> character (active sel)"
    and "character (active sel) \<le> int (length (trim t)) + 1"
    and "1 < length (selections event)"
  shows "interpretClick st ed event sel now = Inr (st\<lparr>lastClickTime := now\<rparr>, [BatchTestGeneration])"
  using assms by (simp add: interpretClick_def andThen_def Let_def)

lemma twoFunctionEditor_valid: "isValidSourceFile twoFunctionEditor"
  by code_simp

lemma twoFunctionEditor_detect: "detectLoop (document twoFunctionEditor) 0 ([], []) = Inr (detectedAB, [])"
  by code_simp

lemma detectedAB_decorations: "\<exists>ds. createDecorations detectedAB = Inr ds"
  by (simp add: detectedAB_def newRange_def andThen_def)

lemma twoFunctionEditor_short: "\<not> 10 < length (document twoFunctionEditor)"
  by (simp add: twoFunctionEditor_def)

lemma clickState_update:
  "\<exists>st1. updateDecorations engine clickState = Inr (st1, []) \<and> functionRanges st1 = detectedAB"
  using detectedAB_decorations twoFunctionEditor_valid twoFunctionEditor_short twoFunctionEditor_detect
  by (auto simp: updateDecorations_def clickState_def initialState_def detectFunctions_def
      andThen_def)

lemma twoFunctionEditor_last_line: "trim (last (document twoFunctionEditor)) = ''function b() {}''"
  by code_simp

lemma single_caret_click:
  assumes "document ed = document twoFunctionEditor"
  shows "interpretClick st ed \<lparr>textEditor = 1, selections = [caretAtEnd]\<rparr> caretAtEnd now
     = Inr (st, [])"
  using twoFunctionEditor_last_line assms
  by (simp add: interpretClick_def singleClick_def andThen_def lineAt_def Let_def caretAtEnd_def
      twoFunctionEditor_def)

text \<open>
  C6, as stated: a caret on the last line, inside the column window, with two functions
  detected and the click debounce elapsed, dispatches batch test generation. Here all of
  that holds (and the editing flag is off and the typing cooldown has elapsed), but the
  event carries a single selection: the handler only shows the batch button.
\<close>

theorem single_caret_no_batch:
  "isEmpty caretAtEnd
 \<and> line (active caretAtEnd) = int (length (document twoFunctionEditor)) - 1
 \<and> int (length (trim (last (document twoFunctionEditor)))) - 2 \<le> character (active caretAtEnd)
 \<and> character (active caretAtEnd) \<le> int (length (trim (last (document twoFunctionEditor)))) + 1
 \<and> CLICK_DEBOUNCE_TIME < 10000 - lastClickTime clickState
 \<and> map_sum id (\<lambda>r. length (functionRanges (fst r)))
       (handleSelectionChange (\<lambda>src. EngineThrows) clickState
          \<lparr>textEditor = 1, selections = [caretAtEnd]\<rparr> 10000) = Inr 2
 \<and> map_sum id snd
       (handleSelectionChange (\<lambda>src. EngineThrows) clickState
          \<lparr>textEditor = 1, selections = [caretAtEnd]\<rparr> 10000) = Inr [ShowBatchButton]"
proof -
  obtain st1 where u: "updateDecorations (\<lambda>src. EngineThrows) clickState = Inr (st1, [])"
    and f: "functionRanges st1 = detectedAB"
    using clickState_update by blast
  from updateDecorations_sameSession [OF u]
  obtain ed1 where ed1: "activeEditor st1 = Some ed1" "document ed1 = document twoFunctionEditor"
    "languageId ed1 = languageId twoFunctionEditor" "fileName ed1 = fileName twoFunctionEditor"
    by (auto simp: sameSession_def clickState_def initialState_def split: option.splits)
  then have valid: "isValidSourceFile ed1"
    using twoFunctionEditor_valid by (simp add: isValidSourceFile_def)
  have button: "updateBatchButton st1 = [ShowBatchButton]"
    using ed1 valid f by (simp add: updateBatchButton_def detectedAB_def)
  have "handleSelectionChange (\<lambda>src. EngineThrows) clickState
          \<lparr>textEditor = 1, selections = [caretAtEnd]\<rparr> 10000 = Inr (st1, [ShowBatchButton])"
    using u ed1 button single_caret_click [OF ed1(2)] twoFunctionEditor_short
    by (simp add: handleSelectionChange_def clickState_def initialState_def andThen_def
        isEmpty_def caretAtEnd_def twoFunctionEditor_def)
  with f twoFunctionEditor_last_line show ?thesis
    by (simp add: detectedAB_def isEmpty_def caretAtEnd_def twoFunctionEditor_def
        CLICK_DEBOUNCE_TIME_def clickState_def initialState_def)
qed

lemma createDecorations_returns:
  assumes "\<forall>(n, r) \<in> set rs. 0 \<le> end_line r \<and> 0 \<le> end_character r"
  shows "\<exists>ds. createDecorations rs = Inr ds"
  using assms
proof (induction rs)
  case Nil
  then show ?case by simp
next
  case (Cons a rs)
  obtain n r where a: "a = (n, r)"
    by (cases a) auto
  with Cons.prems have "0 \<le> end_line r" "0 \<le> end_character r"
    by auto
  then obtain rng where "newRange (end_line r) (end_character r + 4) (end_line r) (end_character r + 5) = Inr rng"
    by (auto simp: newRange_def)
  moreover from Cons obtain ds where "createDecorations rs = Inr ds"
    by auto
  ultimately show ?case
    using a by (simp add: andThen_def)
qed

lemma updateDecorations_returns: "\<exists>st1 out1. updateDecorations engine st = Inr (st1, out1)"
proof (cases "activeEditor st")
  case None
  then show ?thesis
    by (simp add: updateDecorations_def)
next
  case (Some ed)
  show ?thesis
  proof (cases "isValidSourceFile ed")
    case False
    with Some show ?thesis
      by (simp add: updateDecorations_def)
  next
    case True
    define pre where "pre =
      (if length (document ed) > 10
       then (let (metrics, outA) = analyzeComplexity engine (Some (document ed));
                 (stH, outH) = highlightComplexFunctions st metrics
             in (stH, outA @ outH))
       else (st\<lparr>activeEditor := Some (ed\<lparr>complexityDecorations := []\<rparr>)\<rparr>, []))"
    obtain stA outA where pre: "pre = (stA, outA)"
      by (cases pre) auto
    obtain st2 out2 where d: "detectFunctions stA (document ed) = Inr (st2, out2)"
      using detectFunctions_returns [of "document ed" stA] by metis
    have "\<forall>(n, r) \<in> set (functionRanges st2). 0 \<le> end_line r \<and> 0 \<le> end_character r"
      using in_range_of_line [OF d] by (fastforce simp: lineRange_def)
    then obtain ds where "createDecorations (functionRanges st2) = Inr ds"
      using createDecorations_returns by blast
    with Some True pre [unfolded pre_def] d show ?thesis
      by (simp add: updateDecorations_def andThen_def)
  qed
qed

lemma batch_click_after_refresh:
  assumes "activeEditor st = Some ed"
    and "textEditor event = editorId ed"
    and "selections event = sel # others"
    and "others \<noteq> []"
    and "isEmpty sel"
    and "updateDecorations engine st = Inr (st1, out1)"
    and "2 \<le> length (functionRanges st1)"
    and "document ed \<noteq> []"
    and "line (active sel) = int (length (document ed)) - 1"
    and "trim (last (document ed)) \<noteq> []"
    and "\<not> isEditingFunction st"
    and "TYPING_COOLDOWN \<le> now - lastTypingTime st"
    and "CLICK_DEBOUNCE_TIME < now - lastClickTime st"
    and "int (length (trim (last (document ed)))) - 2 \<le> character (active sel)"
    and "character (active sel) \<le> int (length (trim (last (document ed)))) + 1"
  shows "\<exists>st' out. handleSelectionChange engine st event now = Inr (st', out)
           \<and> BatchTestGeneration \<in> set out \<and> lastClickTime st' = now"
proof -
  from updateDecorations_sameSession [OF assms(6)] assms(1)
  obtain ed1 where ed1: "activeEditor st1 = Some ed1" "document ed1 = document ed"
    and fl1: "isEditingFunction st1 = isEditingFunction st" "lastClickTime st1 = lastClickTime st"
      "lastTypingTime st1 = lastTypingTime st"
    by (auto simp: sameSession_def split: option.splits)
  define post where "post =
     (case activeEditor st1 of
        None \<Rightarrow> (st1, [])
      | Some ed1 \<Rightarrow>
          if length (document ed1) > 10
          then (let (metrics, outA) = analyzeComplexity engine (Some (document ed1));
                    (stH, outH) = highlightComplexFunctions st1 metrics
                in (stH, outA @ outH))
          else (st1, []))"
  obtain st3 out3 where post: "post = (st3, out3)"
    by (cases post) auto
  have s3: "sameSession st1 st3 \<and> functionRanges st3 = functionRanges st1"
  proof (cases "length (document ed1) > 10")
    case True
    with post ed1 show ?thesis
      unfolding post_def using analysis_sameSession by auto
  next
    case False
    with post ed1 show ?thesis
      unfolding post_def by (simp add: sameSession_refl)
  qed
  with ed1 obtain ed3 where ed3: "activeEditor st3 = Some ed3" "document ed3 = document ed"
    by (auto simp: sameSession_def split: option.splits)
  from s3 fl1 have fl3: "isEditingFunction st3 = isEditingFunction st"
    "lastClickTime st3 = lastClickTime st" "lastTypingTime st3 = lastTypingTime st"
    "functionRanges st3 = functionRanges st1"
    by (auto simp: sameSession_def)
  have "nat (int (length (document ed)) - 1) = length (document ed) - 1"
    by arith
  then have line: "lineAt (document ed3) (line (active sel)) = Inr (last (document ed))"
    using assms(8,9) ed3 by (simp add: lineAt_def last_conv_nth)
  have click: "interpretClick st3 ed3 event sel now =
      Inr (st3\<lparr>lastClickTime := now\<rparr>, [BatchTestGeneration])"
    using line assms(3,4,7,9-) fl3 ed3
    by (intro interpretClick_batch [where t = "last (document ed)"]) auto
  have "handleSelectionChange engine st event now =
      Inr (st3\<lparr>lastClickTime := now\<rparr>, out1 @ updateBatchButton st1 @ out3 @ [BatchTestGeneration])"
    using assms(1,2,3,5,6) post [unfolded post_def] ed1 ed3 click
    unfolding handleSelectionChange_def
    by (simp add: andThen_def Let_def)
  then show ?thesis
    by simp
qed

text \<open>
  C6, amended. Let the event of the active editor carry more than one selection, the first
  one a caret on the last line within columns \<open>lineLength - 2 \<dots> lineLength + 1\<close> of the
  trimmed line; let that line be non-blank, the editing flag off, at least 2000 ms passed
  since the last typing and more than 2000 ms since the last click. Then the handler's
  refresh of the decorations returns, and if the function map it leaves holds at least two
  entries, the handler dispatches batch test generation and records the click time.
\<close>

theorem batch_click_dispatches:
  assumes "activeEditor st = Some ed"
    and "textEditor event = editorId ed"
    and "selections event = sel # others"
    and "others \<noteq> []"
    and "isEmpty sel"
    and "document ed \<noteq> []"
    and "line (active sel) = int (length (document ed)) - 1"
    and "trim (last (document ed)) \<noteq> []"
    and "\<not> isEditingFunction st"
    and "TYPING_COOLDOWN \<le> now - lastTypingTime st"
    and "CLICK_DEBOUNCE_TIME < now - lastClickTime st"
    and "int (length (trim (last (document ed)))) - 2 \<le> character (active sel)"
    and "character (active sel) \<le> int (length (trim (last (document ed)))) + 1"
  shows "\<exists>st1 out1. updateDecorations engine st = Inr (st1, out1)
           \<and> (2 \<le> length (functionRanges st1) \<longrightarrow>
                (\<exists>st' out. handleSelectionChange engine st event now = Inr (st', out)
                   \<and> BatchTestGeneration \<in> set out \<and> lastClickTime st' = now))"
proof -
  obtain st1 out1 where u: "updateDecorations engine st = Inr (st1, out1)"
    using updateDecorations_returns by blast
  have "\<exists>st' out. handleSelectionChange engine st event now = Inr (st', out)
          \<and> BatchTestGeneration \<in> set out \<and> lastClickTime st' = now"
    if "2 \<le> length (functionRanges st1)"
    using assms(1-5) u that assms(6-) by (rule batch_click_after_refresh)
  with u show ?thesis
    by blast
qed

theorem batch_click_dispatches_witness:
  "\<exists>st' out. handleSelectionChange (\<lambda>src. EngineThrows) clickState
       \<lparr>textEditor = 1, selections = [caretAtEnd, caretAtEnd]\<rparr> 10000 = Inr (st', out)
     \<and> BatchTestGeneration \<in> set out \<and> lastClickTime st' = 10000"
proof -
  obtain st1 where u: "updateDecorations (\<lambda>src. EngineThrows) clickState = Inr (st1, [])"
    and f: "functionRanges st1 = detectedAB"
    using clickState_update by blast
  have "trim (last (document twoFunctionEditor)) \<noteq> []"
    by (simp add: twoFunctionEditor_last_line)
  then show ?thesis
    using batch_click_dispatches
      [of clickState twoFunctionEditor "\<lparr>textEditor = 1, selections = [caretAtEnd, caretAtEnd]\<rparr>"
        caretAtEnd "[caretAtEnd]" 10000 "\<lambda>src. EngineThrows"]
      u f twoFunctionEditor_last_line
    by (simp add: clickState_def initialState_def twoFunctionEditor_def caretAtEnd_def
        isEmpty_def detectedAB_def TYPING_COOLDOWN_def CLICK_DEBOUNCE_TIME_def)
qed

end
